theory Spec2Isabelle
  imports Complex_Main
begin

section \<open>Exceptions and outcomes\<close>

text \<open>
  The thermostat controller (version 4 of the script; version 3 has the same control
  logic without the database, and the original the same mode cycle and loop counters).
  The model follows the Python: module-level configuration and hardware collaborators
  become an environment record, the state machine object a state record that every
  method takes and returns, and each method a function of the same name. Calls from the
  button callbacks and from the display thread are modelled one after the other, as the
  methods themselves run; the \<open>sleep\<close> of the loop, the debug prints and the first
  display line (the clock's timestamp) are left out.

  The exceptions the modelled code can raise are values of \<open>py_error\<close>; a call either
  returns a value or raises, and in both cases it leaves a state behind (what it had
  mutated up to that point), which is what an enclosing \<open>try/except\<close> continues with.
  Python floats are modelled as exact reals in the methods of the machine, whose
  decisions compare and format whatever value the filter returns; the rounding of the
  filter's own arithmetic is modelled in a section of its own below.
\<close>

datatype py_error = ZeroDivisionError | IndexError | TransitionNotAllowed | SerialException

datatype ('a, 's) outcome = Raised py_error 's | Returned 'a 's

fun then_do :: "('a, 's) outcome \<Rightarrow> ('a \<Rightarrow> 's \<Rightarrow> ('b, 's) outcome) \<Rightarrow> ('b, 's) outcome" where
  "then_do (Raised e s) f = Raised e s"
| "then_do (Returned a s) f = f a s"

section \<open>MovingAverage\<close>

text \<open>
  \<^verbatim>\<open>class MovingAverage\<close>: \<open>window\<close>, the deque \<open>buf\<close> (oldest sample first) and the
  running sum (the field \<open>self.sum\<close>).
\<close>

record MovingAverage =
  window :: int
  buf :: "real list"
  sum_ma :: real

text \<open>\<^verbatim>\<open>__init__(self, window)\<close>: \<open>self.window = max(1, int(window))\<close>.\<close>

definition MovingAverage_init :: "int \<Rightarrow> MovingAverage" where
  "MovingAverage_init w = \<lparr>window = max 1 w, buf = [], sum_ma = 0\<rparr>"

text \<open>Python's \<open>/\<close> on a float and a length: it raises on a zero divisor.\<close>

definition py_truediv :: "real \<Rightarrow> nat \<Rightarrow> py_error + real" where
  "py_truediv x n = (if n = 0 then Inl ZeroDivisionError else Inr (x / real n))"

text \<open>\<open>deque.popleft()\<close>: raises IndexError on an empty deque.\<close>

definition popleft :: "real list \<Rightarrow> py_error + (real \<times> real list)" where
  "popleft b = (case b of [] \<Rightarrow> Inl IndexError | y # rest \<Rightarrow> Inr (y, rest))"

text \<open>\<^verbatim>\<open>value(self)\<close>: \<open>(self.sum / len(self.buf)) if self.buf else None\<close>.\<close>

definition value_ma :: "MovingAverage \<Rightarrow> (real option, MovingAverage) outcome" where
  "value_ma m =
     (if buf m \<noteq> [] then
        (case py_truediv (sum_ma m) (length (buf m)) of
           Inl e \<Rightarrow> Raised e m
         | Inr v \<Rightarrow> Returned (Some v) m)
      else Returned None m)"

text \<open>
  \<^verbatim>\<open>push(self, x)\<close>: append, add to the sum, and when the buffer is now longer than the
  window subtract and drop the oldest sample; then return \<open>value()\<close>.
\<close>

definition push :: "MovingAverage \<Rightarrow> real \<Rightarrow> (real option, MovingAverage) outcome" where
  "push m x =
     (let m1 = m\<lparr>buf := buf m @ [x]\<rparr>;
          m2 = m1\<lparr>sum_ma := sum_ma m1 + x\<rparr>
      in if int (length (buf m2)) > window m2 then
           (case popleft (buf m2) of
              Inl e \<Rightarrow> Raised e m2
            | Inr (y, rest) \<Rightarrow> value_ma (m2\<lparr>buf := rest, sum_ma := sum_ma m2 - y\<rparr>))
         else value_ma m2)"

text \<open>A sequence of pushes from left to right, with the value each push returned.\<close>

fun pushes :: "MovingAverage \<Rightarrow> real list \<Rightarrow> (real option list, MovingAverage) outcome" where
  "pushes m [] = Returned [] m"
| "pushes m (x # xs) =
     then_do (push m x) (\<lambda>v m'. then_do (pushes m' xs) (\<lambda>vs m''. Returned (v # vs) m''))"


text \<open>
  Specification-side vocabulary for the filter: the samples a window of \<open>W\<close> retains
  of a sequence (its last \<open>W\<close>), their mean, and the invariant of the object.
\<close>

definition retained :: "int \<Rightarrow> real list \<Rightarrow> real list" where
  "retained W xs = drop (length xs - nat W) xs"

definition mean :: "real list \<Rightarrow> real" where
  "mean b = sum_list b / real (length b)"

definition ma_inv :: "MovingAverage \<Rightarrow> bool" where
  "ma_inv m = (1 \<le> window m \<and> int (length (buf m)) \<le> window m \<and> sum_ma m = sum_list (buf m))"

section \<open>Floating-point arithmetic of the moving average\<close>

text \<open>
  The samples and the running sum of the filter are Python floats (IEEE 754 doubles):
  every addition, subtraction and division gives the exact result rounded to the nearest
  double, ties to the even significand. \<open>round_double\<close> is that rounding for a real
  number, with 53 significant bits and no bound on the exponent (temperatures are far
  from overflow and underflow): the number is scaled by powers of two until its
  magnitude lies between \<open>2^52\<close> and \<open>2^53\<close>, rounded to an integer there, and scaled
  back.
\<close>


definition round_half_even :: "real \<Rightarrow> real" where
  "round_half_even x =
     (let f = \<lfloor>x\<rfloor>; d = x - of_int f
      in if d < 1 / 2 then of_int f
         else if 1 / 2 < d then of_int (f + 1)
         else if even f then of_int f else of_int (f + 1))"

definition significand_low :: real where "significand_low = 4503599627370496"
definition significand_high :: real where "significand_high = 9007199254740992"

function scale_round :: "real \<Rightarrow> real" where
  "scale_round x =
     (if x = 0 then 0
      else if significand_high \<le> \<bar>x\<bar> then 2 * scale_round (x / 2)
      else if \<bar>x\<bar> < significand_low then scale_round (2 * x) / 2
      else round_half_even x)"
  by pat_completeness auto
termination
proof (relation "measure (\<lambda>x. nat \<bar>\<lfloor>log 2 \<bar>x\<bar>\<rfloor> - 52\<bar>)")
  show "wf (measure (\<lambda>x. nat \<bar>\<lfloor>log 2 \<bar>x\<bar>\<rfloor> - 52\<bar>))" by simp
next
  fix x :: real
  assume nz: "x \<noteq> 0" and big: "significand_high \<le> \<bar>x\<bar>"
  have pos: "0 < \<bar>x\<bar>" using nz by simp
  have l: "log 2 \<bar>x / 2\<bar> = log 2 \<bar>x\<bar> - 1"
    using pos by (simp add: log_divide)
  have "(2::real) powr 53 = 9007199254740992" by (simp only: powr_numeral) simp
  then have "(2::real) powr (real_of_int 53) \<le> \<bar>x\<bar>"
    using big by (simp only: of_int_numeral significand_high_def)
  then have "real_of_int 53 \<le> log 2 \<bar>x\<bar>" using pos by (subst le_log_iff) simp_all
  then have "53 \<le> \<lfloor>log 2 \<bar>x\<bar>\<rfloor>" by (simp only: le_floor_iff)
  then have "nat \<bar>\<lfloor>log 2 \<bar>x\<bar> - 1\<rfloor> - 52\<bar> < nat \<bar>\<lfloor>log 2 \<bar>x\<bar>\<rfloor> - 52\<bar>" by simp
  then show "(x / 2, x) \<in> measure (\<lambda>x. nat \<bar>\<lfloor>log 2 \<bar>x\<bar>\<rfloor> - 52\<bar>)"
    by (simp only: in_measure l)
next
  fix x :: real
  assume nz: "x \<noteq> 0" and small: "\<bar>x\<bar> < significand_low"
  have pos: "0 < \<bar>x\<bar>" using nz by simp
  have l: "log 2 \<bar>2 * x\<bar> = log 2 \<bar>x\<bar> + 1"
    using pos by (simp add: abs_mult log_mult)
  have "(2::real) powr 52 = 4503599627370496" by (simp only: powr_numeral) simp
  then have "\<bar>x\<bar> < (2::real) powr (real_of_int 52)"
    using small by (simp only: of_int_numeral significand_low_def)
  then have "log 2 \<bar>x\<bar> < real_of_int 52" using pos by (subst log_less_iff) simp_all
  then have "\<lfloor>log 2 \<bar>x\<bar>\<rfloor> < 52" by (simp only: floor_less_iff)
  then have "nat \<bar>\<lfloor>log 2 \<bar>x\<bar> + 1\<rfloor> - 52\<bar> < nat \<bar>\<lfloor>log 2 \<bar>x\<bar>\<rfloor> - 52\<bar>" by simp
  then show "(2 * x, x) \<in> measure (\<lambda>x. nat \<bar>\<lfloor>log 2 \<bar>x\<bar>\<rfloor> - 52\<bar>)"
    by (simp only: in_measure l)
qed

declare scale_round.simps [simp del]

definition round_double :: "real \<Rightarrow> real" where
  "round_double x = scale_round x"

text \<open>
  \<^verbatim>\<open>value\<close> and \<^verbatim>\<open>push\<close> of \<^verbatim>\<open>class MovingAverage\<close> once more, now with the result of
  every arithmetic operation passed through a rounding \<open>fl\<close>: \<open>round_double\<close> for the
  program as it runs, the identity for exact arithmetic (which gives back \<open>value_ma\<close>
  and \<open>push\<close> above).
\<close>

definition value_rounded :: "(real \<Rightarrow> real) \<Rightarrow> MovingAverage \<Rightarrow> (real option, MovingAverage) outcome" where
  "value_rounded fl m =
     (if buf m \<noteq> [] then
        (case py_truediv (sum_ma m) (length (buf m)) of
           Inl e \<Rightarrow> Raised e m
         | Inr v \<Rightarrow> Returned (Some (fl v)) m)
      else Returned None m)"

definition push_rounded :: "(real \<Rightarrow> real) \<Rightarrow> MovingAverage \<Rightarrow> real \<Rightarrow> (real option, MovingAverage) outcome" where
  "push_rounded fl m x =
     (let m1 = m\<lparr>buf := buf m @ [x]\<rparr>;
          m2 = m1\<lparr>sum_ma := fl (sum_ma m1 + x)\<rparr>
      in if int (length (buf m2)) > window m2 then
           (case popleft (buf m2) of
              Inl e \<Rightarrow> Raised e m2
            | Inr (y, rest) \<Rightarrow> value_rounded fl (m2\<lparr>buf := rest, sum_ma := fl (sum_ma m2 - y)\<rparr>))
         else value_rounded fl m2)"

fun pushes_rounded :: "(real \<Rightarrow> real) \<Rightarrow> MovingAverage \<Rightarrow> real list \<Rightarrow> (real option list, MovingAverage) outcome" where
  "pushes_rounded fl m [] = Returned [] m"
| "pushes_rounded fl m (x # xs) =
     then_do (push_rounded fl m x) (\<lambda>v m'. then_do (pushes_rounded fl m' xs) (\<lambda>vs m''. Returned (v # vs) m''))"

text \<open>The part of the filter's invariant that does not depend on arithmetic.\<close>

definition ma_bound :: "MovingAverage \<Rightarrow> bool" where
  "ma_bound m = (1 \<le> window m \<and> int (length (buf m)) \<le> window m)"

section \<open>Module-level configuration and collaborators\<close>

text \<open>The tunable constants of the module.\<close>

definition MA_WINDOW :: int where "MA_WINDOW = 10"
definition HYSTERESIS_F :: real where "HYSTERESIS_F = 1.0"
definition STATUS_PERIOD_S :: int where "STATUS_PERIOD_S = 30"

text \<open>
  What the controller reads from outside itself. \<open>schedule\<close> is the list the module-level
  loop walks (\<open>sorted(SCHEDULE_ENTRIES, ...)\<close>, each entry as minute of day and setpoint);
  \<open>thSensor\<close> is \<open>None\<close> when the sensor failed to initialise, else the Celsius reading
  of the k-th access (\<open>None\<close>: that access raised); \<open>ser\<close> is \<open>None\<close> when the serial
  port failed to open, else whether the k-th write succeeds; \<open>now_minutes\<close> is
  \<open>now.hour * 60 + now.minute\<close> at the k-th schedule refresh.
\<close>

record env =
  SCHEDULE_ENABLED :: bool
  schedule :: "(int \<times> int) list"
  thSensor :: "(nat \<Rightarrow> real option) option"
  ser :: "(nat \<Rightarrow> bool) option"
  now_minutes :: "nat \<Rightarrow> int"

text \<open>
  The two parallel lists the module builds from the schedule: each entry appends its
  minute of day to the one and its setpoint to the other.
\<close>

definition schedule_minutes :: "env \<Rightarrow> int list" where
  "schedule_minutes e = map fst (schedule e)"

definition schedule_values :: "env \<Rightarrow> int list" where
  "schedule_values e = map snd (schedule e)"

text \<open>The schedule of the source: 06:00 \<rightarrow> 70, 22:00 \<rightarrow> 65.\<close>

definition SCHEDULE_ENTRIES :: "(int \<times> int) list" where
  "SCHEDULE_ENTRIES = [(6 * 60 + 0, 70), (22 * 60 + 0, 65)]"

text \<open>
  \<open>bisect.bisect_right(a, x)\<close> of the standard library: binary search for the insertion
  point to the right of every element equal to \<open>x\<close>.
\<close>

function bisect_right_loop :: "int list \<Rightarrow> int \<Rightarrow> nat \<Rightarrow> nat \<Rightarrow> nat" where
  "bisect_right_loop a x lo hi =
     (if lo < hi then
        (let mid = (lo + hi) div 2
         in if x < a ! mid then bisect_right_loop a x lo mid
            else bisect_right_loop a x (mid + 1) hi)
      else lo)"
  by pat_completeness auto
termination
  by (relation "measure (\<lambda>(a, x, lo, hi). hi - lo)") auto

declare bisect_right_loop.simps [simp del]

definition bisect_right :: "int list \<Rightarrow> int \<Rightarrow> nat" where
  "bisect_right a x = bisect_right_loop a x 0 (length a)"

text \<open>Indexing a Python list: a negative index counts from the end, out of range raises.\<close>

definition py_index :: "'a list \<Rightarrow> int \<Rightarrow> py_error + 'a" where
  "py_index xs i =
     (if 0 \<le> i \<and> i < int (length xs) then Inr (xs ! nat i)
      else if i < 0 \<and> 0 \<le> i + int (length xs) then Inr (xs ! nat (i + int (length xs)))
      else Inl IndexError)"

section \<open>Text formatting\<close>

text \<open>\<open>str\<close> of a Python integer, as an f-string renders it.\<close>

definition digit_char :: "nat \<Rightarrow> char" where
  "digit_char d = ''0123456789'' ! d"

fun show_nat :: "nat \<Rightarrow> string" where
  "show_nat n = (if n < 10 then [digit_char n] else show_nat (n div 10) @ [digit_char (n mod 10)])"

declare show_nat.simps [simp del]

definition show_int :: "int \<Rightarrow> string" where
  "show_int i = (if i < 0 then CHR ''-'' # show_nat (nat (- i)) else show_nat (nat i))"

text \<open>\<open>s.ljust(16)[:16]\<close> and \<open>s.upper()\<close> (ASCII letters).\<close>

definition ljust16 :: "string \<Rightarrow> string" where
  "ljust16 s = take 16 (s @ replicate (16 - length s) CHR '' '')"

definition upper_char :: "char \<Rightarrow> char" where
  "upper_char c =
     (let n = (of_char c :: nat) in if 97 \<le> n \<and> n \<le> 122 then char_of (n - 32) else c)"

definition upper :: "string \<Rightarrow> string" where
  "upper s = map upper_char s"

definition newline :: string where
  "newline = [CHR 0x0A]"

section \<open>TemperatureMachine\<close>

datatype mode = Off | Heat | Cool

text \<open>\<open>current_state.id\<close>.\<close>

fun state_id :: "mode \<Rightarrow> string" where
  "state_id Off = ''off''"
| "state_id Heat = ''heat''"
| "state_id Cool = ''cool''"

text \<open>A PWMLED after \<open>off()\<close>, after \<open>value = 1.0\<close>, after \<open>pulse(...)\<close>.\<close>

datatype light = LedOff | Solid | Pulsing

text \<open>
  The state machine object with the outputs it drives: the two LEDs, the second line of
  the LCD (the first is the clock's timestamp), the lines written to the serial port and
  the rows handed to the database; and the number of sensor accesses, schedule refreshes
  and serial writes made so far, which index the collaborators of \<open>env\<close>.
\<close>

record machine =
  current_state :: mode
  baseSetPoint :: int
  manualOffset :: int
  setPoint :: int
  ma :: MovingAverage
  endDisplay :: bool
  redLight :: light
  blueLight :: light
  lcd :: string
  serial_out :: "string list"
  db_events :: "string list"
  db_readings :: "(real \<times> int \<times> string) list"
  sensor_reads :: nat
  clock_reads :: nat
  serial_writes :: nat

text \<open>The class attributes at start-up.\<close>

definition TemperatureMachine_init :: machine where
  "TemperatureMachine_init =
     \<lparr>current_state = Off, baseSetPoint = 72, manualOffset = 0, setPoint = 72,
      ma = MovingAverage_init MA_WINDOW, endDisplay = False,
      redLight = LedOff, blueLight = LedOff, lcd = [], serial_out = [],
      db_events = [], db_readings = [],
      sensor_reads = 0, clock_reads = 0, serial_writes = 0\<rparr>"

text \<open>\<open>db.log_event\<close> and \<open>db.log_reading\<close>: best effort, they never raise.\<close>

definition log_event :: "string \<Rightarrow> machine \<Rightarrow> machine" where
  "log_event ev s = s\<lparr>db_events := db_events s @ [ev]\<rparr>"

definition log_reading :: "real \<Rightarrow> int \<Rightarrow> string \<Rightarrow> machine \<Rightarrow> machine" where
  "log_reading t sp st s = s\<lparr>db_readings := db_readings s @ [(t, sp, st)]\<rparr>"

text \<open>\<^verbatim>\<open>_refreshEffectiveSetPoint\<close>.\<close>

definition refreshEffectiveSetPoint :: "env \<Rightarrow> machine \<Rightarrow> (unit, machine) outcome" where
  "refreshEffectiveSetPoint e s =
     (if SCHEDULE_ENABLED e \<and> schedule_minutes e \<noteq> [] then
        (let minutes = now_minutes e (clock_reads s);
             s0 = s\<lparr>clock_reads := Suc (clock_reads s)\<rparr>;
             idx = int (bisect_right (schedule_minutes e) minutes) - 1
         in case (if idx < 0 then py_index (schedule_values e) (- 1)
                  else py_index (schedule_values e) idx) of
              Inl err \<Rightarrow> Raised err s0
            | Inr base \<Rightarrow>
                Returned () (s0\<lparr>baseSetPoint := base, setPoint := base + manualOffset s0\<rparr>))
      else Returned () (s\<lparr>setPoint := baseSetPoint s + manualOffset s\<rparr>))"

text \<open>\<^verbatim>\<open>getFahrenheit\<close>: a missing sensor and a failed read both give \<open>None\<close>.\<close>

definition getFahrenheit :: "env \<Rightarrow> machine \<Rightarrow> (real option, machine) outcome" where
  "getFahrenheit e s =
     (case thSensor e of
        None \<Rightarrow> Returned None s
      | Some read \<Rightarrow>
          (let s1 = s\<lparr>sensor_reads := Suc (sensor_reads s)\<rparr>
           in case read (sensor_reads s) of
                None \<Rightarrow> Returned None s1
              | Some t \<Rightarrow> Returned (Some (((9 / 5) * t) + 32)) s1))"

text \<open>A call on the machine's filter object \<open>self.ma\<close>.\<close>

definition on_ma :: "(MovingAverage \<Rightarrow> ('a, MovingAverage) outcome) \<Rightarrow> machine \<Rightarrow> ('a, machine) outcome" where
  "on_ma f s =
     (case f (ma s) of
        Raised err m \<Rightarrow> Raised err (s\<lparr>ma := m\<rparr>)
      | Returned v m \<Rightarrow> Returned v (s\<lparr>ma := m\<rparr>))"

text \<open>\<^verbatim>\<open>_getSmoothedFahrenheit\<close>.\<close>

definition getSmoothedFahrenheit :: "env \<Rightarrow> machine \<Rightarrow> (real option, machine) outcome" where
  "getSmoothedFahrenheit e s =
     then_do (getFahrenheit e s) (\<lambda>t_f s1.
       case t_f of
         None \<Rightarrow> Returned None s1
       | Some x \<Rightarrow> on_ma (\<lambda>m. push m x) s1)"

text \<open>\<^verbatim>\<open>updateLights\<close>.\<close>

definition updateLights :: "env \<Rightarrow> machine \<Rightarrow> (unit, machine) outcome" where
  "updateLights e s =
     then_do (refreshEffectiveSetPoint e s) (\<lambda>_ s1.
     then_do (getSmoothedFahrenheit e s1) (\<lambda>temp s2.
       let s3 = s2\<lparr>redLight := LedOff\<rparr>;
           s4 = s3\<lparr>blueLight := LedOff\<rparr>;
           state = current_state s4
       in if state = Off then Returned () s4
          else case temp of
            None \<Rightarrow>
              (if state = Heat then Returned () (s4\<lparr>redLight := Solid\<rparr>)
               else if state = Cool then Returned () (s4\<lparr>blueLight := Solid\<rparr>)
               else Returned () s4)
          | Some t \<Rightarrow>
              (if state = Heat then
                 (if t < real_of_int (setPoint s4) - HYSTERESIS_F
                  then Returned () (s4\<lparr>redLight := Pulsing\<rparr>)
                  else Returned () (s4\<lparr>redLight := Solid\<rparr>))
               else if state = Cool then
                 (if t > real_of_int (setPoint s4) + HYSTERESIS_F
                  then Returned () (s4\<lparr>blueLight := Pulsing\<rparr>)
                  else Returned () (s4\<lparr>blueLight := Solid\<rparr>))
               else Returned () s4)))"

text \<open>
  The transition \<open>cycle = off.to(heat) | heat.to(cool) | cool.to(off)\<close> and the state
  callbacks. The state machine library runs the source state's \<open>on_exit\<close>, makes the
  target current, then runs the target's \<open>on_enter\<close>; an event with no transition from
  the current state raises.
\<close>

definition cycle_transitions :: "(mode \<times> mode) list" where
  "cycle_transitions = [(Off, Heat), (Heat, Cool), (Cool, Off)]"

fun on_exit :: "mode \<Rightarrow> machine \<Rightarrow> machine" where
  "on_exit Heat s = s\<lparr>redLight := LedOff\<rparr>"
| "on_exit Cool s = s\<lparr>blueLight := LedOff\<rparr>"
| "on_exit Off s = s"

fun on_enter :: "env \<Rightarrow> mode \<Rightarrow> machine \<Rightarrow> (unit, machine) outcome" where
  "on_enter e Heat s =
     then_do (updateLights e s) (\<lambda>_ s1. Returned () (log_event ''state_change:heat'' s1))"
| "on_enter e Cool s =
     then_do (updateLights e s) (\<lambda>_ s1. Returned () (log_event ''state_change:cool'' s1))"
| "on_enter e Off s =
     Returned () (log_event ''state_change:off'' (s\<lparr>redLight := LedOff, blueLight := LedOff\<rparr>))"

definition cycle :: "env \<Rightarrow> machine \<Rightarrow> (unit, machine) outcome" where
  "cycle e s =
     (case map_of cycle_transitions (current_state s) of
        None \<Rightarrow> Raised TransitionNotAllowed s
      | Some target \<Rightarrow> on_enter e target ((on_exit (current_state s) s)\<lparr>current_state := target\<rparr>))"

text \<open>The three button handlers.\<close>

definition processTempStateButton :: "env \<Rightarrow> machine \<Rightarrow> (unit, machine) outcome" where
  "processTempStateButton e s = cycle e (log_event ''button:mode'' s)"

definition processTempIncButton :: "env \<Rightarrow> machine \<Rightarrow> (unit, machine) outcome" where
  "processTempIncButton e s =
     (let s1 = s\<lparr>manualOffset := manualOffset s + 1\<rparr>;
          s2 = log_event ''button:increase'' s1
      in then_do (refreshEffectiveSetPoint e s2) (\<lambda>_ s3. updateLights e s3))"

definition processTempDecButton :: "env \<Rightarrow> machine \<Rightarrow> (unit, machine) outcome" where
  "processTempDecButton e s =
     (let s1 = s\<lparr>manualOffset := manualOffset s - 1\<rparr>;
          s2 = log_event ''button:decrease'' s1
      in then_do (refreshEffectiveSetPoint e s2) (\<lambda>_ s3. updateLights e s3))"

text \<open>
  \<^verbatim>\<open>setupSerialOutput\<close>: the status line without its line end. The \<open>try\<close> of the
  source around \<open>floor\<close> catches what \<open>floor\<close> raises on a float that is not finite; a
  real number has a floor, so the model has no such branch.
\<close>

definition setupSerialOutput :: "env \<Rightarrow> machine \<Rightarrow> (string, machine) outcome" where
  "setupSerialOutput e s =
     (let state = state_id (current_state s)
      in then_do (getSmoothedFahrenheit e s) (\<lambda>temp_sm s1.
           let temp_f = (case temp_sm of Some t \<Rightarrow> show_int \<lfloor>t\<rfloor> | None \<Rightarrow> ''NA'')
           in Returned (state @ '','' @ temp_f @ '','' @ show_int (setPoint s1)) s1))"

text \<open>
  \<open>screen.updateScreen\<close>: the second line as the display shows it (a display fault is
  caught inside).
\<close>

definition updateScreen :: "string \<Rightarrow> machine \<Rightarrow> machine" where
  "updateScreen line2 s = s\<lparr>lcd := ljust16 line2\<rparr>"

text \<open>
  \<^verbatim>\<open>manageMyDisplay\<close>, one iteration of its loop in three parts. First the alternation
  on \<open>altCounter\<close>: the second display line and the new \<open>altCounter\<close>.
\<close>

definition display_step :: "env \<Rightarrow> int \<Rightarrow> machine \<Rightarrow> (string \<times> int, machine) outcome" where
  "display_step e altCounter s =
     (if altCounter < 6 then
        then_do (getSmoothedFahrenheit e s) (\<lambda>temp_sm s1.
          let t_show = (case temp_sm of None \<Rightarrow> ''--'' | Some t \<Rightarrow> show_int \<lfloor>t\<rfloor>);
              lcd_line_2 = ljust16 (''Temp:'' @ t_show @ ''F Set:'' @ show_int (setPoint s1) @ ''F'')
          in Returned (lcd_line_2, altCounter + 1) s1)
      else
        (let state_label = upper (state_id (current_state s));
             lcd_line_2 = ljust16 state_label;
             altCounter1 = altCounter + 1
         in if altCounter1 \<ge> 11 then
              then_do (updateLights e s) (\<lambda>_ s1. Returned (lcd_line_2, 1) s1)
            else Returned (lcd_line_2, altCounter1) s))"

text \<open>
  Second, the body of the \<open>try\<close> of a status tick: the serial write when the port is
  there, then the reading handed to the database. An exception anywhere in it is caught
  and ends the block, keeping what was done before.
\<close>

definition status_step :: "env \<Rightarrow> machine \<Rightarrow> machine" where
  "status_step e s =
     (let log_part = (\<lambda>s2.
            case getSmoothedFahrenheit e s2 of
              Raised err s3 \<Rightarrow> s3
            | Returned temp_val s3 \<Rightarrow>
                log_reading (case temp_val of None \<Rightarrow> 0 | Some t \<Rightarrow> t)
                  (setPoint s3) (state_id (current_state s3)) s3)
      in case ser e of
           None \<Rightarrow> log_part s
         | Some write_ok \<Rightarrow>
             (case setupSerialOutput e s of
                Raised err s1 \<Rightarrow> s1
              | Returned line s1 \<Rightarrow>
                  (let s2 = s1\<lparr>serial_writes := Suc (serial_writes s1)\<rparr>
                   in if write_ok (serial_writes s1)
                      then log_part (s2\<lparr>serial_out := serial_out s2 @ [line @ newline]\<rparr>)
                      else s2)))"

text \<open>Third, the whole iteration, from the counters before it to the counters after.\<close>

definition manageMyDisplay_body :: "env \<Rightarrow> int \<times> int \<Rightarrow> machine \<Rightarrow> (int \<times> int, machine) outcome" where
  "manageMyDisplay_body e cs s =
     (case cs of (counter, altCounter) \<Rightarrow>
        then_do (refreshEffectiveSetPoint e s) (\<lambda>_ s1.
        then_do (display_step e altCounter s1) (\<lambda>(lcd_line_2, altCounter') s2.
          let s3 = updateScreen lcd_line_2 s2
          in if counter mod STATUS_PERIOD_S = 0
             then Returned (1, altCounter') (status_step e s3)
             else Returned (counter + 1, altCounter') s3)))"

text \<open>
  The loop \<open>while not self.endDisplay\<close>, for at most \<open>n\<close> iterations: the flag is set
  by the main thread only, so the loop has no bound of its own.
\<close>

fun manageMyDisplay_loop :: "env \<Rightarrow> nat \<Rightarrow> int \<times> int \<Rightarrow> machine \<Rightarrow> (int \<times> int, machine) outcome" where
  "manageMyDisplay_loop e 0 cs s = Returned cs s"
| "manageMyDisplay_loop e (Suc n) cs s =
     (if endDisplay s then Returned cs s
      else then_do (manageMyDisplay_body e cs s) (\<lambda>cs' s'. manageMyDisplay_loop e n cs' s'))"

text \<open>\<^verbatim>\<open>manageMyDisplay\<close> from its initial counters.\<close>

definition manageMyDisplay :: "env \<Rightarrow> nat \<Rightarrow> machine \<Rightarrow> (int \<times> int, machine) outcome" where
  "manageMyDisplay e n s = manageMyDisplay_loop e n (1, 1) s"


section \<open>Specification-side vocabulary for the machine\<close>

text \<open>
  The fields no sensor read, schedule refresh or actuation decision touches: only the
  mode button, the setpoint buttons and the status tick change them.
\<close>

definition keeps :: "machine \<Rightarrow> machine \<Rightarrow> bool" where
  "keeps s s' =
     (current_state s' = current_state s \<and> manualOffset s' = manualOffset s \<and>
      endDisplay s' = endDisplay s \<and> serial_out s' = serial_out s \<and>
      serial_writes s' = serial_writes s \<and> db_events s' = db_events s \<and>
      db_readings s' = db_readings s)"

text \<open>
  The closed form of a schedule refresh, used to state what \<open>refreshEffectiveSetPoint\<close>
  returns: the base setpoint the lookup selects, and the state after the refresh.
\<close>

definition schedule_base :: "env \<Rightarrow> int \<Rightarrow> int" where
  "schedule_base e m =
     (if bisect_right (schedule_minutes e) m = 0 then last (schedule_values e)
      else schedule_values e ! (bisect_right (schedule_minutes e) m - 1))"

definition refreshed :: "env \<Rightarrow> machine \<Rightarrow> machine" where
  "refreshed e s =
     (if SCHEDULE_ENABLED e \<and> schedule e \<noteq> [] then
        s\<lparr>clock_reads := Suc (clock_reads s),
          baseSetPoint := schedule_base e (now_minutes e (clock_reads s)),
          setPoint := schedule_base e (now_minutes e (clock_reads s)) + manualOffset s\<rparr>
      else s\<lparr>setPoint := baseSetPoint s + manualOffset s\<rparr>)"

text \<open>The sensor is missing, or the read about to be made raises.\<close>

definition sensor_fault :: "env \<Rightarrow> machine \<Rightarrow> bool" where
  "sensor_fault e s =
     (case thSensor e of None \<Rightarrow> True | Some read \<Rightarrow> read (sensor_reads s) = None)"

text \<open>The cycle of modes the specification names: Off, Heat, Cool and back to Off.\<close>

fun next_mode :: "mode \<Rightarrow> mode" where
  "next_mode Off = Heat"
| "next_mode Heat = Cool"
| "next_mode Cool = Off"

text \<open>
  The status line and the temperature display line as the specification words them, and
  the successor of the display-alternation counter.
\<close>

definition status_line :: "mode \<Rightarrow> real option \<Rightarrow> int \<Rightarrow> string" where
  "status_line md temp sp =
     state_id md @ '','' @ (case temp of None \<Rightarrow> ''NA'' | Some t \<Rightarrow> show_int \<lfloor>t\<rfloor>) @ '',''
       @ show_int sp @ newline"

definition temp_line :: "real option \<Rightarrow> int \<Rightarrow> string" where
  "temp_line temp sp =
     ljust16 (''Temp:'' @ (case temp of None \<Rightarrow> ''--'' | Some t \<Rightarrow> show_int \<lfloor>t\<rfloor>)
                @ ''F Set:'' @ show_int sp @ ''F'')"

definition next_alt :: "int \<Rightarrow> int" where
  "next_alt a = (if a < 6 then a + 1 else if 11 \<le> a + 1 then 1 else a + 1)"

text \<open>The state a call leaves behind, whether it returned or raised.\<close>

fun result_state :: "('a, 's) outcome \<Rightarrow> 's" where
  "result_state (Raised err s) = s"
| "result_state (Returned a s) = s"

text \<open>
  A concrete set of collaborators for evaluation: the source's schedule at noon, a sensor
  whose k-th reading is \<open>10 * k\<close> degrees Celsius, a serial port whose writes succeed.
\<close>

definition demo_sensor :: "nat \<Rightarrow> real option" where
  "demo_sensor k = Some (10 * real k)"

definition always_ok :: "nat \<Rightarrow> bool" where
  "always_ok k = True"

definition noon :: "nat \<Rightarrow> int" where
  "noon k = 12 * 60"

definition demo_env :: env where
  "demo_env = \<lparr>SCHEDULE_ENABLED = True, schedule = SCHEDULE_ENTRIES, thSensor = Some demo_sensor,
                ser = Some always_ok, now_minutes = noon\<rparr>"

text \<open>
  The machine after 29 and after 30 iterations of the loop from start-up with these
  collaborators, as evaluation gives them.
\<close>

definition after_29_ticks :: machine where
  "after_29_ticks =
     \<lparr>current_state = Off, baseSetPoint = 70, manualOffset = 0, setPoint = 70,
      ma = \<lparr>window = 10, buf = [158, 176, 194, 212, 230, 248, 266, 284, 302, 320],
            sum_ma = 2390\<rparr>,
      endDisplay = False, redLight = LedOff, blueLight = LedOff,
      lcd = ''OFF             '', serial_out = [], db_events = [], db_readings = [],
      sensor_reads = 17, clock_reads = 31, serial_writes = 0\<rparr>"

definition after_30_ticks :: machine where
  "after_30_ticks =
     \<lparr>current_state = Off, baseSetPoint = 70, manualOffset = 0, setPoint = 70,
      ma = \<lparr>window = 10, buf = [212, 230, 248, 266, 284, 302, 320, 338, 356, 374],
            sum_ma = 2930\<rparr>,
      endDisplay = False, redLight = LedOff, blueLight = LedOff,
      lcd = ''OFF             '', serial_out = [''off,275,70'' @ [CHR 0x0A]],
      db_events = [], db_readings = [(293, 70, ''off'')],
      sensor_reads = 20, clock_reads = 33, serial_writes = 1\<rparr>"

section \<open>Properties of the moving average\<close>

lemma value_ma_total:
  "value_ma m = Returned (if buf m = [] then None else Some (sum_ma m / real (length (buf m)))) m"
  by (simp add: value_ma_def py_truediv_def)

lemma push_total:
  "push m x =
     (let b = (if int (length (buf m)) + 1 > window m then tl (buf m @ [x]) else buf m @ [x]);
          t = (if int (length (buf m)) + 1 > window m then sum_ma m + x - hd (buf m @ [x]) else sum_ma m + x)
      in Returned (if b = [] then None else Some (t / real (length b))) (m\<lparr>buf := b, sum_ma := t\<rparr>))"
  by (cases "buf m") (simp_all add: push_def popleft_def value_ma_total Let_def)

lemma ma_inv_init: "ma_inv (MovingAverage_init w)"
  by (simp add: ma_inv_def MovingAverage_init_def)

lemma retained_snoc:
  assumes "ma_inv m"
  shows "retained (window m) (buf m @ [x]) =
           (if window m < int (length (buf m)) + 1 then tl (buf m @ [x]) else buf m @ [x])"
proof (cases "window m < int (length (buf m)) + 1")
  case True
  with assms have len: "int (length (buf m)) = window m" by (simp add: ma_inv_def)
  have "buf m \<noteq> []" using len assms by (auto simp: ma_inv_def)
  then obtain y ys where b: "buf m = y # ys" by (cases "buf m") auto
  from len have "nat (window m) = length (buf m)" by simp
  then show ?thesis using True by (simp add: retained_def b)
next
  case False
  then show ?thesis by (simp add: retained_def)
qed

lemma push_mean:
  assumes "ma_inv m"
  shows "push m x = Returned (Some (mean (retained (window m) (buf m @ [x]))))
            (m\<lparr>buf := retained (window m) (buf m @ [x]),
               sum_ma := sum_list (retained (window m) (buf m @ [x]))\<rparr>)"
proof (cases "window m < int (length (buf m)) + 1")
  case True
  with assms have len: "int (length (buf m)) = window m" by (simp add: ma_inv_def)
  have "buf m \<noteq> []" using len assms by (auto simp: ma_inv_def)
  then obtain y ys where b: "buf m = y # ys" by (cases "buf m") auto
  show ?thesis using True assms b len unfolding retained_snoc[OF assms]
    by (simp add: push_total ma_inv_def Let_def mean_def)
next
  case False
  then show ?thesis using assms unfolding retained_snoc[OF assms]
    by (simp add: push_total ma_inv_def Let_def mean_def)
qed

lemma retained_length: "1 \<le> W \<Longrightarrow> int (length (retained W xs)) \<le> W"
  by (simp add: retained_def)

lemma retained_step: "retained W (retained W ys @ xs) = retained W (ys @ xs)"
proof (cases "nat W \<le> length ys")
  case True
  then have "length ys + length xs - (length ys - nat W + nat W) + (length ys - nat W)
      = length ys + length xs - nat W" by simp
  then show ?thesis by (simp add: retained_def)
next
  case False
  then show ?thesis by (simp add: retained_def)
qed

lemma ma_inv_retained:
  "ma_inv m \<Longrightarrow> ma_inv (m\<lparr>buf := retained (window m) ys, sum_ma := sum_list (retained (window m) ys)\<rparr>)"
  by (simp add: ma_inv_def retained_length)

lemma retained_id: "ma_inv m \<Longrightarrow> retained (window m) (buf m) = buf m"
proof -
  assume "ma_inv m"
  then have "length (buf m) \<le> nat (window m)" unfolding ma_inv_def by linarith
  then show ?thesis by (simp add: retained_def)
qed

lemma pushes_inv:
  "ma_inv m \<Longrightarrow>
     pushes m xs =
       Returned (map (\<lambda>k. Some (mean (retained (window m) (buf m @ take (Suc k) xs)))) [0..<length xs])
         (m\<lparr>buf := retained (window m) (buf m @ xs),
            sum_ma := sum_list (retained (window m) (buf m @ xs))\<rparr>)"
proof (induction xs arbitrary: m)
  case Nil
  then show ?case by (simp add: retained_id) (simp add: ma_inv_def)
next
  case (Cons x xs)
  let ?m1 = "m\<lparr>buf := retained (window m) (buf m @ [x]),
               sum_ma := sum_list (retained (window m) (buf m @ [x]))\<rparr>"
  have inv1: "ma_inv ?m1" using Cons.prems by (rule ma_inv_retained)
  have step: "\<And>ys. retained (window m) (retained (window m) (buf m @ [x]) @ ys)
                 = retained (window m) (buf m @ x # ys)"
    using retained_step[of "window m" "buf m @ [x]"] by simp
  show ?case
    by (simp add: push_mean[OF Cons.prems] Cons.IH[OF inv1] step map_upt_Suc del: upt_Suc)
qed

lemma pushes_init:
  assumes "1 \<le> W"
  shows "pushes (MovingAverage_init W) xs =
       Returned (map (\<lambda>k. Some (mean (retained W (take (Suc k) xs)))) [0..<length xs])
         \<lparr>window = W, buf = retained W xs, sum_ma = sum_list (retained W xs)\<rparr>"
  using assms pushes_inv[OF ma_inv_init, of W xs]
  by (simp add: MovingAverage_init_def max_def)

lemma push_window_one:
  assumes "m = \<lparr>window = 1, buf = retained 1 xs, sum_ma = sum_list (retained 1 xs)\<rparr>"
  shows "\<exists>m'. push m x = Returned (Some x) m'"
proof -
  have "int (length (retained 1 xs)) \<le> 1" by (rule retained_length) simp
  then have "retained 1 xs = [] \<or> (\<exists>y. retained 1 xs = [y])"
    by (cases "retained 1 xs") auto
  then show ?thesis using assms by (auto simp: push_total Let_def)
qed

lemma retained_snoc_nonempty:
  assumes "1 \<le> W"
  shows "retained W (ys @ [x]) \<noteq> []"
proof -
  from assms have "0 < nat W" by simp
  then have "\<not> length (ys @ [x]) \<le> length (ys @ [x]) - nat W" by simp
  then show ?thesis by (simp only: retained_def drop_eq_Nil not_False_eq_True)
qed

text \<open>
  C10. Whatever window the constructor is given (zero and negative included), the filter's
  window is \<open>max 1 w\<close>, so at least 1, and the buffer never outgrows it; \<open>value()\<close> on an
  empty buffer returns absent without dividing; and \<open>push\<close> raises in no state at all:
  after the append the buffer it divides by is not empty.
\<close>

theorem moving_average_window_clamped:
  "\<forall>w xs x m0. \<exists>vs m v m' v0 m0'.
       window (MovingAverage_init w) = max 1 w
     \<and> 1 \<le> window (MovingAverage_init w)
     \<and> value_ma (MovingAverage_init w) = Returned None (MovingAverage_init w)
     \<and> value_ma (m0\<lparr>buf := []\<rparr>) = Returned None (m0\<lparr>buf := []\<rparr>)
     \<and> pushes (MovingAverage_init w) xs = Returned vs m
     \<and> window m = max 1 w
     \<and> int (length (buf m)) \<le> window m
     \<and> push m x = Returned (Some v) m'
     \<and> buf m' \<noteq> []
     \<and> push m0 x = Returned v0 m0'"
proof (intro allI)
  fix w :: int and xs :: "real list" and x :: real and m0 :: MovingAverage
  let ?W = "max 1 w"
  let ?m = "\<lparr>window = ?W, buf = retained ?W xs, sum_ma = sum_list (retained ?W xs)\<rparr>"
  have W: "1 \<le> ?W" by simp
  have init: "MovingAverage_init w = MovingAverage_init ?W"
    by (simp add: MovingAverage_init_def)
  have a: "pushes (MovingAverage_init w) xs =
       Returned (map (\<lambda>k. Some (mean (retained ?W (take (Suc k) xs)))) [0..<length xs]) ?m"
    unfolding init by (rule pushes_init[OF W])
  have inv: "ma_inv ?m" by (simp add: ma_inv_def retained_length)
  have b: "int (length (buf ?m)) \<le> window ?m" using retained_length[OF W, of xs] by simp
  let ?b = "retained ?W (buf ?m @ [x])"
  have c: "push ?m x = Returned (Some (mean ?b)) (?m\<lparr>buf := ?b, sum_ma := sum_list ?b\<rparr>)"
    using push_mean[OF inv, of x] by simp
  have d: "?b \<noteq> []" by (rule retained_snoc_nonempty[OF W])
  have e: "\<exists>v0 m0'. push m0 x = Returned v0 m0'" by (simp add: push_total Let_def)
  show "\<exists>vs m v m' v0 m0'.
       window (MovingAverage_init w) = max 1 w
     \<and> 1 \<le> window (MovingAverage_init w)
     \<and> value_ma (MovingAverage_init w) = Returned None (MovingAverage_init w)
     \<and> value_ma (m0\<lparr>buf := []\<rparr>) = Returned None (m0\<lparr>buf := []\<rparr>)
     \<and> pushes (MovingAverage_init w) xs = Returned vs m
     \<and> window m = max 1 w
     \<and> int (length (buf m)) \<le> window m
     \<and> push m x = Returned (Some v) m'
     \<and> buf m' \<noteq> []
     \<and> push m0 x = Returned v0 m0'"
    using a b c d e
    by (auto simp: MovingAverage_init_def value_ma_total simp del: max.bounded_iff)
qed

theorem moving_average_window_clamped_witness:
  "\<exists>m m'. window (MovingAverage_init (- 4)) = 1
     \<and> pushes (MovingAverage_init (- 4)) [70, 72] = Returned [Some 70, Some 72] m
     \<and> int (length (buf m)) \<le> 1
     \<and> push m 74 = Returned (Some 74) m'"
  using moving_average_window_clamped[rule_format, where w = "- 4" and xs = "[70, 72]" and x = 74
      and ?m0.0 = "MovingAverage_init 0"]
  by (auto simp: MovingAverage_init_def push_total Let_def)



section \<open>The moving average in floating-point arithmetic\<close>

lemma value_rounded_total:
  "value_rounded fl m =
     Returned (if buf m = [] then None else Some (fl (sum_ma m / real (length (buf m))))) m"
  by (simp add: value_rounded_def py_truediv_def)

lemma push_rounded_total:
  "push_rounded fl m x =
     (let b = (if window m < int (length (buf m)) + 1 then tl (buf m @ [x]) else buf m @ [x]);
          t = (if window m < int (length (buf m)) + 1
               then fl (fl (sum_ma m + x) - hd (buf m @ [x])) else fl (sum_ma m + x))
      in Returned (if b = [] then None else Some (fl (t / real (length b)))) (m\<lparr>buf := b, sum_ma := t\<rparr>))"
  by (cases "buf m") (simp_all add: push_rounded_def popleft_def value_rounded_total Let_def)

lemma value_rounded_exact: "value_rounded (\<lambda>r. r) m = value_ma m"
  by (simp add: value_rounded_def value_ma_def)

lemma push_rounded_exact: "push_rounded (\<lambda>r. r) m x = push m x"
  by (simp add: push_rounded_total push_total)

lemma pushes_rounded_exact: "pushes_rounded (\<lambda>r. r) m xs = pushes m xs"
  by (induction xs arbitrary: m) (simp_all add: push_rounded_exact)

lemma retained_snoc_bound:
  assumes "ma_bound m"
  shows "retained (window m) (buf m @ [x]) =
           (if window m < int (length (buf m)) + 1 then tl (buf m @ [x]) else buf m @ [x])"
proof (cases "window m < int (length (buf m)) + 1")
  case True
  with assms have len: "int (length (buf m)) = window m" by (simp add: ma_bound_def)
  have "buf m \<noteq> []" using len assms by (auto simp: ma_bound_def)
  then obtain y ys where b: "buf m = y # ys" by (cases "buf m") auto
  from len have "nat (window m) = length (buf m)" by simp
  then show ?thesis using True by (simp add: retained_def b)
next
  case False
  then show ?thesis by (simp add: retained_def)
qed

lemma push_rounded_bound:
  assumes "ma_bound m"
  shows "\<exists>v t. push_rounded fl m x =
            Returned (Some v) (m\<lparr>buf := retained (window m) (buf m @ [x]), sum_ma := t\<rparr>)"
proof -
  have ne: "retained (window m) (buf m @ [x]) \<noteq> []"
    using assms by (intro retained_snoc_nonempty) (simp add: ma_bound_def)
  show ?thesis using ne unfolding retained_snoc_bound[OF assms]
    by (simp add: push_rounded_total Let_def) blast
qed

lemma pushes_rounded_bound:
  "ma_bound m \<Longrightarrow>
     \<exists>vs t. pushes_rounded fl m xs =
              Returned vs (m\<lparr>buf := retained (window m) (buf m @ xs), sum_ma := t\<rparr>)
          \<and> length vs = length xs \<and> None \<notin> set vs"
proof (induction xs arbitrary: m)
  case Nil
  have "length (buf m) \<le> nat (window m)" using Nil unfolding ma_bound_def by linarith
  then have "retained (window m) (buf m) = buf m" by (simp add: retained_def)
  then have "m\<lparr>buf := retained (window m) (buf m @ []), sum_ma := sum_ma m\<rparr> = m" by simp
  then show ?case by (intro exI[of _ "[]"] exI[of _ "sum_ma m"]) simp
next
  case (Cons x xs)
  from push_rounded_bound[OF Cons.prems, of fl x] obtain v t where
    p: "push_rounded fl m x =
          Returned (Some v) (m\<lparr>buf := retained (window m) (buf m @ [x]), sum_ma := t\<rparr>)"
    by (elim exE)
  let ?m1 = "m\<lparr>buf := retained (window m) (buf m @ [x]), sum_ma := t\<rparr>"
  have b1: "ma_bound ?m1" using Cons.prems by (simp add: ma_bound_def retained_length)
  from Cons.IH[OF b1] obtain vs t' where
    ih: "pushes_rounded fl ?m1 xs =
           Returned vs (?m1\<lparr>buf := retained (window ?m1) (buf ?m1 @ xs), sum_ma := t'\<rparr>)"
        "length vs = length xs" "None \<notin> set vs"
    by (elim exE conjE)
  have step: "retained (window m) (retained (window m) (buf m @ [x]) @ xs)
                 = retained (window m) (buf m @ x # xs)"
    using retained_step[of "window m" "buf m @ [x]" xs] by simp
  show ?case
    by (intro exI[of _ "Some v # vs"] exI[of _ t'])
       (simp add: p ih step)
qed


lemma ma_bound_init: "ma_bound (MovingAverage_init w)"
  by (simp add: ma_bound_def MovingAverage_init_def)

lemma retained_empty_iff: "1 \<le> W \<Longrightarrow> (retained W xs = []) = (xs = [])"
proof -
  assume "1 \<le> W"
  then have "0 < nat W" by simp
  then have "(length xs \<le> length xs - nat W) = (length xs = 0)" by arith
  then show ?thesis by (simp add: retained_def)
qed

lemma pushes_rounded_init:
  assumes "1 \<le> W"
  shows "\<exists>vs t. pushes_rounded fl (MovingAverage_init W) xs =
              Returned vs \<lparr>window = W, buf = retained W xs, sum_ma = t\<rparr>
          \<and> length vs = length xs \<and> None \<notin> set vs"
  using assms pushes_rounded_bound[OF ma_bound_init, of fl W xs]
  by (simp add: MovingAverage_init_def max_def)

lemma push_rounded_first:
  assumes "1 \<le> W" and "fl x = x"
  shows "\<exists>m. push_rounded fl (MovingAverage_init W) x = Returned (Some x) m"
  using assms by (simp add: push_rounded_total MovingAverage_init_def Let_def)

lemmas round_eval = round_double_def scale_round.simps significand_low_def significand_high_def
  round_half_even_def

lemma pushes_rounded_example:
  "pushes_rounded round_double (MovingAverage_init 3) [70, 72, 74, 76] =
     Returned [Some 70, Some 71, Some 72, Some 74] \<lparr>window = 3, buf = [72, 74, 76], sum_ma = 222\<rparr>"
  by (simp add: MovingAverage_init_def push_rounded_total round_eval Let_def)

text \<open>
  In double arithmetic, window 1: after 59.0, pushing the double nearest to 59.225
  returns a different number, because \<open>(59.0 + x) - 59.0\<close> is rounded twice.
\<close>

theorem running_sum_drift_counterexample:
  "pushes_rounded round_double (MovingAverage_init 1) [59, 8335177747844301 / 140737488355328]
     = Returned [Some 59, Some (2083794436961075 / 35184372088832)]
         \<lparr>window = 1, buf = [8335177747844301 / 140737488355328],
          sum_ma = 2083794436961075 / 35184372088832\<rparr>
   \<and> round_double (59225 / 1000) = 8335177747844301 / 140737488355328
   \<and> (2083794436961075 / 35184372088832 :: real) \<noteq> 8335177747844301 / 140737488355328"
  by (simp add: MovingAverage_init_def push_rounded_total round_eval Let_def)


text \<open>
  C4, as the code has it. From a new filter of window \<open>W \<ge> 1\<close>, under any rounding of the
  arithmetic: every push of a sequence \<open>xs\<close> returns a value; the buffer holds the last
  \<open>W\<close> samples of \<open>xs\<close> (first in, first out) and is never longer than \<open>W\<close>; \<open>value()\<close>
  is absent exactly when \<open>xs\<close> is empty; a further \<open>push(x)\<close> appends \<open>x\<close>, drops the
  oldest sample when the buffer would exceed \<open>W\<close>, and returns the running sum (one
  rounded addition per push, one rounded subtraction per eviction) divided by the count.
  In exact arithmetic the running sum is the sum of the retained samples, every push
  returns their mean, and with \<open>W = 1\<close> a push returns \<open>x\<close>. Under any rounding the first
  push of a representable \<open>x\<close> returns \<open>x\<close>. In double arithmetic, with \<open>W = 3\<close>, pushing
  70, 72, 74, 76 returns 70, 71, 72, 74.
\<close>

theorem moving_average_running_sum:
  "(\<forall>fl W xs x. 1 \<le> W \<longrightarrow>
      (\<exists>vs m. pushes_rounded fl (MovingAverage_init W) xs = Returned vs m
         \<and> length vs = length xs \<and> None \<notin> set vs
         \<and> window m = W
         \<and> buf m = retained W xs
         \<and> int (length (buf m)) \<le> W
         \<and> ((value_rounded fl m = Returned None m) = (xs = []))
         \<and> (let b = (if W < int (length (buf m)) + 1 then tl (buf m @ [x]) else buf m @ [x]);
                 t = (if W < int (length (buf m)) + 1
                      then fl (fl (sum_ma m + x) - hd (buf m @ [x])) else fl (sum_ma m + x))
            in push_rounded fl m x = Returned (Some (fl (t / real (length b))))
                 (m\<lparr>buf := b, sum_ma := t\<rparr>))))
   \<and> (\<forall>W xs x. 1 \<le> W \<longrightarrow>
      (\<exists>vs m. pushes_rounded (\<lambda>r. r) (MovingAverage_init W) xs = Returned vs m
         \<and> vs = map (\<lambda>k. Some (mean (retained W (take (Suc k) xs)))) [0..<length xs]
         \<and> sum_ma m = sum_list (buf m)
         \<and> (W = 1 \<longrightarrow> (\<exists>m'. push_rounded (\<lambda>r. r) m x = Returned (Some x) m'))))
   \<and> (\<forall>fl W x. 1 \<le> W \<and> fl x = x \<longrightarrow>
         (\<exists>m. push_rounded fl (MovingAverage_init W) x = Returned (Some x) m))
   \<and> (\<exists>m. pushes_rounded round_double (MovingAverage_init 3) [70, 72, 74, 76]
            = Returned [Some 70, Some 71, Some 72, Some 74] m)"
proof (intro conjI allI impI)
  fix fl :: "real \<Rightarrow> real" and W :: int and xs :: "real list" and x :: real
  assume W: "1 \<le> W"
  from pushes_rounded_init[OF W, of fl xs] obtain vs t where
    p: "pushes_rounded fl (MovingAverage_init W) xs =
              Returned vs \<lparr>window = W, buf = retained W xs, sum_ma = t\<rparr>"
       "length vs = length xs" "None \<notin> set vs"
    by (elim exE conjE)
  let ?m = "\<lparr>window = W, buf = retained W xs, sum_ma = t\<rparr>"
  have b: "int (length (buf ?m)) \<le> W" using retained_length[OF W, of xs] by simp
  have c: "(value_rounded fl ?m = Returned None ?m) = (xs = [])"
    using retained_empty_iff[OF W, of xs] by (simp add: value_rounded_total)
  have d: "let b = (if W < int (length (buf ?m)) + 1 then tl (buf ?m @ [x]) else buf ?m @ [x]);
                 t = (if W < int (length (buf ?m)) + 1
                      then fl (fl (sum_ma ?m + x) - hd (buf ?m @ [x])) else fl (sum_ma ?m + x))
            in push_rounded fl ?m x = Returned (Some (fl (t / real (length b))))
                 (?m\<lparr>buf := b, sum_ma := t\<rparr>)"
  proof -
    have bd: "ma_bound ?m" using W b by (simp add: ma_bound_def)
    have "retained (window ?m) (buf ?m @ [x]) \<noteq> []"
      by (rule retained_snoc_nonempty) (simp add: W)
    then have "(if W < int (length (buf ?m)) + 1 then tl (buf ?m @ [x]) else buf ?m @ [x]) \<noteq> []"
      using retained_snoc_bound[OF bd, of x] by simp
    then show ?thesis by (simp add: push_rounded_total Let_def)
  qed
  show "\<exists>vs m. pushes_rounded fl (MovingAverage_init W) xs = Returned vs m
         \<and> length vs = length xs \<and> None \<notin> set vs
         \<and> window m = W
         \<and> buf m = retained W xs
         \<and> int (length (buf m)) \<le> W
         \<and> ((value_rounded fl m = Returned None m) = (xs = []))
         \<and> (let b = (if W < int (length (buf m)) + 1 then tl (buf m @ [x]) else buf m @ [x]);
                 t = (if W < int (length (buf m)) + 1
                      then fl (fl (sum_ma m + x) - hd (buf m @ [x])) else fl (sum_ma m + x))
            in push_rounded fl m x = Returned (Some (fl (t / real (length b))))
                 (m\<lparr>buf := b, sum_ma := t\<rparr>))"
    using p b c d by (intro exI[of _ vs] exI[of _ ?m]) simp
next
  fix W :: int and xs :: "real list" and x :: real
  assume W: "1 \<le> W"
  let ?m = "\<lparr>window = W, buf = retained W xs, sum_ma = sum_list (retained W xs)\<rparr>"
  have a: "pushes_rounded (\<lambda>r. r) (MovingAverage_init W) xs =
       Returned (map (\<lambda>k. Some (mean (retained W (take (Suc k) xs)))) [0..<length xs]) ?m"
    unfolding pushes_rounded_exact by (rule pushes_init[OF W])
  have e: "W = 1 \<longrightarrow> (\<exists>m'. push_rounded (\<lambda>r. r) ?m x = Returned (Some x) m')"
    unfolding push_rounded_exact using push_window_one[of _ xs x] by blast
  show "\<exists>vs m. pushes_rounded (\<lambda>r. r) (MovingAverage_init W) xs = Returned vs m
         \<and> vs = map (\<lambda>k. Some (mean (retained W (take (Suc k) xs)))) [0..<length xs]
         \<and> sum_ma m = sum_list (buf m)
         \<and> (W = 1 \<longrightarrow> (\<exists>m'. push_rounded (\<lambda>r. r) m x = Returned (Some x) m'))"
    using a e
    by (intro exI[of _ "map (\<lambda>k. Some (mean (retained W (take (Suc k) xs)))) [0..<length xs]"]
          exI[of _ ?m]) simp
next
  fix fl :: "real \<Rightarrow> real" and W :: int and x :: real
  assume "1 \<le> W \<and> fl x = x"
  then show "\<exists>m. push_rounded fl (MovingAverage_init W) x = Returned (Some x) m"
    using push_rounded_first[of W fl x] by blast
next
  show "\<exists>m. pushes_rounded round_double (MovingAverage_init 3) [70, 72, 74, 76]
            = Returned [Some 70, Some 71, Some 72, Some 74] m"
    using pushes_rounded_example by blast
qed

theorem moving_average_running_sum_witness:
  "(1::int) \<le> 2 \<and>
   (\<exists>vs m. pushes_rounded round_double (MovingAverage_init 2) [70, 72, 74] = Returned vs m
       \<and> length vs = 3 \<and> window m = 2 \<and> buf m = [72, 74]
       \<and> value_rounded round_double m \<noteq> Returned None m)"
  using moving_average_running_sum[THEN conjunct1, rule_format,
      where fl = round_double and W = 2 and xs = "[70, 72, 74]" and x = 76]
  by (auto simp: retained_def)

section \<open>The schedule lookup and the effective setpoint\<close>

lemma bisect_right_loop_spec:
  "sorted a \<Longrightarrow> lo \<le> hi \<Longrightarrow> hi \<le> length a \<Longrightarrow>
   (\<forall>i<lo. a ! i \<le> x) \<Longrightarrow> (\<forall>i. hi \<le> i \<and> i < length a \<longrightarrow> x < a ! i) \<Longrightarrow>
   lo \<le> bisect_right_loop a x lo hi \<and> bisect_right_loop a x lo hi \<le> hi \<and>
   (\<forall>i<bisect_right_loop a x lo hi. a ! i \<le> x) \<and>
   (\<forall>i. bisect_right_loop a x lo hi \<le> i \<and> i < length a \<longrightarrow> x < a ! i)"
proof (induction a x lo hi rule: bisect_right_loop.induct)
  case (1 a x lo hi)
  show ?case
  proof (cases "lo < hi")
    case False
    then have r: "bisect_right_loop a x lo hi = lo"
      by (simp add: bisect_right_loop.simps[of a x lo hi])
    from False "1.prems" have "lo = hi" by simp
    with "1.prems" show ?thesis unfolding r by simp
  next
    case True
    let ?mid = "(lo + hi) div 2"
    have mid: "lo \<le> ?mid" "?mid < hi" using True by auto
    show ?thesis
    proof (cases "x < a ! ?mid")
      case left: True
      have up: "\<forall>i. ?mid \<le> i \<and> i < length a \<longrightarrow> x < a ! i"
      proof (intro allI impI)
        fix i assume i: "?mid \<le> i \<and> i < length a"
        with "1.prems"(1) have "a ! ?mid \<le> a ! i" by (simp add: sorted_iff_nth_mono)
        with left show "x < a ! i" by simp
      qed
      have r: "bisect_right_loop a x lo hi = bisect_right_loop a x lo ?mid"
        using True left by (simp add: bisect_right_loop.simps[of a x lo hi])
      have "lo \<le> bisect_right_loop a x lo ?mid \<and> bisect_right_loop a x lo ?mid \<le> ?mid \<and>
         (\<forall>i<bisect_right_loop a x lo ?mid. a ! i \<le> x) \<and>
         (\<forall>i. bisect_right_loop a x lo ?mid \<le> i \<and> i < length a \<longrightarrow> x < a ! i)"
        using "1.IH"(1)[OF True refl left "1.prems"(1) mid(1) _ "1.prems"(4) up] mid "1.prems"(3)
        by simp
      then show ?thesis unfolding r using mid by auto
    next
      case right: False
      have low: "\<forall>i<?mid + 1. a ! i \<le> x"
      proof (intro allI impI)
        fix i assume i: "i < ?mid + 1"
        with "1.prems"(1,3) mid have "a ! i \<le> a ! ?mid" by (simp add: sorted_iff_nth_mono)
        with right show "a ! i \<le> x" by simp
      qed
      have r: "bisect_right_loop a x lo hi = bisect_right_loop a x (?mid + 1) hi"
        using True right by (simp add: bisect_right_loop.simps[of a x lo hi])
      have "?mid + 1 \<le> bisect_right_loop a x (?mid + 1) hi \<and> bisect_right_loop a x (?mid + 1) hi \<le> hi \<and>
         (\<forall>i<bisect_right_loop a x (?mid + 1) hi. a ! i \<le> x) \<and>
         (\<forall>i. bisect_right_loop a x (?mid + 1) hi \<le> i \<and> i < length a \<longrightarrow> x < a ! i)"
        using "1.IH"(2)[OF True refl right "1.prems"(1) _ "1.prems"(3) low "1.prems"(5)] mid
        by simp
      then show ?thesis unfolding r using mid by auto
    qed
  qed
qed

lemma bisect_right_spec:
  assumes "sorted a"
  shows "bisect_right a x \<le> length a"
    and "\<forall>i<bisect_right a x. a ! i \<le> x"
    and "\<forall>i. bisect_right a x \<le> i \<and> i < length a \<longrightarrow> x < a ! i"
  using bisect_right_loop_spec[OF assms, of 0 "length a" x] by (simp_all add: bisect_right_def)

text \<open>The loop stays within its bounds on every list, sorted or not.\<close>

lemma bisect_right_loop_bounds:
  "lo \<le> hi \<Longrightarrow> lo \<le> bisect_right_loop a x lo hi \<and> bisect_right_loop a x lo hi \<le> hi"
proof (induction a x lo hi rule: bisect_right_loop.induct)
  case (1 a x lo hi)
  show ?case
  proof (cases "lo < hi")
    case False
    then have r: "bisect_right_loop a x lo hi = lo"
      by (simp add: bisect_right_loop.simps[of a x lo hi])
    from "1.prems" show ?thesis unfolding r by simp
  next
    case True
    let ?mid = "(lo + hi) div 2"
    have mid: "lo \<le> ?mid" "?mid < hi" using True by auto
    show ?thesis
    proof (cases "x < a ! ?mid")
      case left: True
      have r: "bisect_right_loop a x lo hi = bisect_right_loop a x lo ?mid"
        using True left by (simp add: bisect_right_loop.simps[of a x lo hi])
      show ?thesis unfolding r using "1.IH"(1)[OF True refl left mid(1)] mid by simp
    next
      case right: False
      have r: "bisect_right_loop a x lo hi = bisect_right_loop a x (?mid + 1) hi"
        using True right by (simp add: bisect_right_loop.simps[of a x lo hi])
      show ?thesis unfolding r using "1.IH"(2)[OF True refl right] mid by simp
    qed
  qed
qed

lemma bisect_right_le_length: "bisect_right a x \<le> length a"
  using bisect_right_loop_bounds[of 0 "length a" a x] by (simp add: bisect_right_def)


lemma py_index_last: "xs \<noteq> [] \<Longrightarrow> py_index xs (- 1) = Inr (last xs)"
  by (cases xs rule: rev_cases) (simp_all add: py_index_def)

lemma py_index_nth: "i < length xs \<Longrightarrow> py_index xs (int i) = Inr (xs ! i)"
  by (simp add: py_index_def)

lemma refresh_eq: "refreshEffectiveSetPoint e s = Returned () (refreshed e s)"
proof (cases "SCHEDULE_ENABLED e \<and> schedule e \<noteq> []")
  case False
  then show ?thesis
    by (auto simp: refreshEffectiveSetPoint_def refreshed_def schedule_minutes_def)
next
  case True
  let ?m = "now_minutes e (clock_reads s)"
  let ?r = "bisect_right (schedule_minutes e) ?m"
  have ne: "schedule_values e \<noteq> []" "schedule_minutes e \<noteq> []"
    using True by (simp_all add: schedule_values_def schedule_minutes_def)
  have le: "?r \<le> length (schedule_values e)"
    using bisect_right_le_length[of "schedule_minutes e" ?m]
    by (simp add: schedule_values_def schedule_minutes_def)
  show ?thesis
  proof (cases "?r = 0")
    case z: True
    then show ?thesis using True ne
      by (simp add: refreshEffectiveSetPoint_def refreshed_def schedule_base_def py_index_last)
  next
    case nz: False
    then have "int ?r - 1 = int (?r - 1)" "?r - 1 < length (schedule_values e)"
      using le by auto
    then have idx: "py_index (schedule_values e) (int ?r - 1) = Inr (schedule_values e ! (?r - 1))"
      by (simp only: py_index_nth)
    have pos: "\<not> int ?r - 1 < 0" using nz by simp
    show ?thesis using True ne nz
      by (simp only: refreshEffectiveSetPoint_def refreshed_def schedule_base_def Let_def idx pos)
         simp
  qed
qed

lemma refreshed_setPoint:
  "setPoint (refreshed e s) = baseSetPoint (refreshed e s) + manualOffset (refreshed e s)"
  by (simp add: refreshed_def)

lemma refreshed_keeps: "keeps s (refreshed e s)"
  by (simp add: refreshed_def keeps_def)

lemma schedule_base_greatest:
  assumes ne: "schedule e \<noteq> []" and srt: "sorted_wrt (<) (map fst (schedule e))"
  shows "if \<exists>p \<in> set (schedule e). fst p \<le> m
         then \<exists>p \<in> set (schedule e). fst p \<le> m
                \<and> (\<forall>q \<in> set (schedule e). fst q \<le> m \<longrightarrow> fst q \<le> fst p)
                \<and> schedule_base e m = snd p
         else schedule_base e m = snd (last (schedule e))"
proof -
  let ?a = "map fst (schedule e)"
  let ?r = "bisect_right ?a m"
  have s: "sorted ?a" using srt by (rule strict_sorted_imp_sorted)
  note bs = bisect_right_spec[OF s, of m]
  have len: "?r \<le> length (schedule e)" using bs(1) by simp
  show ?thesis
  proof (cases "?r = 0")
    case True
    have "\<not> (\<exists>p \<in> set (schedule e). fst p \<le> m)"
    proof
      assume "\<exists>p \<in> set (schedule e). fst p \<le> m"
      then obtain j where j: "j < length (schedule e)" "fst (schedule e ! j) \<le> m"
        by (auto simp: in_set_conv_nth)
      with bs(3) True have "m < ?a ! j" by simp
      with j show False by simp
    qed
    then show ?thesis using True ne
      by (simp add: schedule_base_def schedule_minutes_def schedule_values_def last_map)
  next
    case False
    let ?p = "schedule e ! (?r - 1)"
    have i: "?r - 1 < length (schedule e)" using False len by simp
    have p_in: "?p \<in> set (schedule e)" using i by simp
    have "?r - 1 < ?r" using False by simp
    with bs(2) have "?a ! (?r - 1) \<le> m" by blast
    then have p_le: "fst ?p \<le> m" using i by simp
    have great: "\<forall>q \<in> set (schedule e). fst q \<le> m \<longrightarrow> fst q \<le> fst ?p"
    proof (intro ballI impI)
      fix q assume "q \<in> set (schedule e)" and qm: "fst q \<le> m"
      then obtain j where j: "j < length (schedule e)" "schedule e ! j = q"
        by (auto simp: in_set_conv_nth)
      have "j < ?r"
      proof (rule ccontr)
        assume "\<not> j < ?r"
        with bs(3) j have "m < ?a ! j" by auto
        with j qm show False by simp
      qed
      then have "j \<le> ?r - 1" by simp
      with s i have "?a ! j \<le> ?a ! (?r - 1)" by (simp add: sorted_iff_nth_mono)
      with i j show "fst q \<le> fst ?p" by simp
    qed
    have "schedule_base e m = snd ?p" using False i
      by (simp add: schedule_base_def schedule_minutes_def schedule_values_def)
    then show ?thesis using p_in p_le great by auto
  qed
qed


lemma refresh_examples:
  "map (\<lambda>m. case refreshEffectiveSetPoint
                  (e\<lparr>SCHEDULE_ENABLED := True, schedule := [(360, 70), (1320, 65)],
                     now_minutes := (\<lambda>k. m)\<rparr>) s of
                Returned u s' \<Rightarrow> Some (baseSetPoint s')
              | Raised err s' \<Rightarrow> None)
       [0, 359, 360, 1319, 1320]
     = [Some 65, Some 65, Some 70, Some 70, Some 65]"
  by (simp add: refresh_eq refreshed_def schedule_base_def schedule_minutes_def
        schedule_values_def bisect_right_def bisect_right_loop.simps)

text \<open>
  C2. With the schedule enabled, not empty and strictly ascending by minute of day, a
  refresh at minute \<open>m\<close> (any integer, so every minute 0 to 1439) returns and leaves as base
  setpoint the setpoint of the greatest entry whose minute is at most \<open>m\<close>, and that of the
  last entry when no entry qualifies. For the entries (360, 70), (1320, 65) the minutes
  0, 359, 360, 1319, 1320 give 65, 65, 70, 70, 65.
\<close>

theorem schedule_lookup_previous_entry:
  "(\<forall>(e::env) (s::machine). SCHEDULE_ENABLED e \<and> schedule e \<noteq> [] \<and> sorted_wrt (<) (map fst (schedule e)) \<longrightarrow>
      (\<exists>s'. refreshEffectiveSetPoint e s = Returned () s' \<and>
         (if \<exists>p \<in> set (schedule e). fst p \<le> now_minutes e (clock_reads s)
          then \<exists>p \<in> set (schedule e). fst p \<le> now_minutes e (clock_reads s)
                 \<and> (\<forall>q \<in> set (schedule e).
                       fst q \<le> now_minutes e (clock_reads s) \<longrightarrow> fst q \<le> fst p)
                 \<and> baseSetPoint s' = snd p
          else baseSetPoint s' = snd (last (schedule e)))))
   \<and> (\<forall>(e::env) (s::machine). map (\<lambda>m. case refreshEffectiveSetPoint
                  (e\<lparr>SCHEDULE_ENABLED := True, schedule := [(360, 70), (1320, 65)],
                     now_minutes := (\<lambda>k. m)\<rparr>) s of
                Returned u s' \<Rightarrow> Some (baseSetPoint s')
              | Raised err s' \<Rightarrow> None)
         [0, 359, 360, 1319, 1320]
       = [Some 65, Some 65, Some 70, Some 70, Some 65])"
proof (intro conjI allI impI)
  fix e :: env and s :: machine
  assume h: "SCHEDULE_ENABLED e \<and> schedule e \<noteq> [] \<and> sorted_wrt (<) (map fst (schedule e))"
  let ?m = "now_minutes e (clock_reads s)"
  have b: "baseSetPoint (refreshed e s) = schedule_base e ?m"
    using h by (simp add: refreshed_def)
  have g: "if \<exists>p \<in> set (schedule e). fst p \<le> ?m
         then \<exists>p \<in> set (schedule e). fst p \<le> ?m
                \<and> (\<forall>q \<in> set (schedule e). fst q \<le> ?m \<longrightarrow> fst q \<le> fst p)
                \<and> schedule_base e ?m = snd p
         else schedule_base e ?m = snd (last (schedule e))"
    using h by (intro schedule_base_greatest) simp_all
  show "\<exists>s'. refreshEffectiveSetPoint e s = Returned () s' \<and>
         (if \<exists>p \<in> set (schedule e). fst p \<le> ?m
          then \<exists>p \<in> set (schedule e). fst p \<le> ?m
                 \<and> (\<forall>q \<in> set (schedule e). fst q \<le> ?m \<longrightarrow> fst q \<le> fst p)
                 \<and> baseSetPoint s' = snd p
          else baseSetPoint s' = snd (last (schedule e)))"
    using g unfolding refresh_eq b[symmetric] by simp
next
  fix e :: env and s :: machine
  show "map (\<lambda>m. case refreshEffectiveSetPoint
                  (e\<lparr>SCHEDULE_ENABLED := True, schedule := [(360, 70), (1320, 65)],
                     now_minutes := (\<lambda>k. m)\<rparr>) s of
                Returned u s' \<Rightarrow> Some (baseSetPoint s')
              | Raised err s' \<Rightarrow> None)
         [0, 359, 360, 1319, 1320]
       = [Some 65, Some 65, Some 70, Some 70, Some 65]"
    by (rule refresh_examples)
qed

theorem schedule_lookup_previous_entry_witness:
  "sorted_wrt (<) (map fst SCHEDULE_ENTRIES) \<and>
   (\<exists>s'. refreshEffectiveSetPoint
           \<lparr>SCHEDULE_ENABLED = True, schedule = SCHEDULE_ENTRIES, thSensor = None, ser = None,
            now_minutes = (\<lambda>k. 720)\<rparr> TemperatureMachine_init = Returned () s'
        \<and> baseSetPoint s' = 70)"
  using schedule_lookup_previous_entry[THEN conjunct1, rule_format,
      of "\<lparr>SCHEDULE_ENABLED = True, schedule = SCHEDULE_ENTRIES, thSensor = None, ser = None,
            now_minutes = (\<lambda>k. 720)\<rparr>" TemperatureMachine_init]
  by (auto simp: SCHEDULE_ENTRIES_def)

lemma getFahrenheit_returns:
  "\<exists>v s'. getFahrenheit e s = Returned v s' \<and> keeps s s' \<and> setPoint s' = setPoint s
      \<and> baseSetPoint s' = baseSetPoint s \<and> ma s' = ma s \<and> redLight s' = redLight s
      \<and> blueLight s' = blueLight s \<and> lcd s' = lcd s \<and> clock_reads s' = clock_reads s
      \<and> sensor_reads s' \<le> Suc (sensor_reads s)"
  by (auto simp: getFahrenheit_def keeps_def Let_def split: option.splits)

lemma getSmoothed_returns:
  "\<exists>v s'. getSmoothedFahrenheit e s = Returned v s' \<and> keeps s s' \<and> setPoint s' = setPoint s
      \<and> baseSetPoint s' = baseSetPoint s \<and> redLight s' = redLight s
      \<and> blueLight s' = blueLight s \<and> lcd s' = lcd s \<and> clock_reads s' = clock_reads s
      \<and> sensor_reads s' \<le> Suc (sensor_reads s)"
proof -
  obtain v s1 where g: "getFahrenheit e s = Returned v s1" "keeps s s1" "setPoint s1 = setPoint s"
      "baseSetPoint s1 = baseSetPoint s" "redLight s1 = redLight s"
      "blueLight s1 = blueLight s" "lcd s1 = lcd s" "clock_reads s1 = clock_reads s"
      "sensor_reads s1 \<le> Suc (sensor_reads s)"
    using getFahrenheit_returns[of e s] by blast
  show ?thesis
  proof (cases v)
    case None
    with g show ?thesis by (simp add: getSmoothedFahrenheit_def)
  next
    case (Some x)
    with g show ?thesis
      by (simp add: getSmoothedFahrenheit_def on_ma_def push_total Let_def keeps_def)
  qed
qed

lemma refreshed_frame:
  "sensor_reads (refreshed e s) = sensor_reads s" "ma (refreshed e s) = ma s"
  "redLight (refreshed e s) = redLight s" "blueLight (refreshed e s) = blueLight s"
  "lcd (refreshed e s) = lcd s"
  by (simp_all add: refreshed_def)

lemma updateLights_returns:
  "\<exists>s'. updateLights e s = Returned () s' \<and> keeps s s'
      \<and> setPoint s' = baseSetPoint s' + manualOffset s'
      \<and> baseSetPoint s' = baseSetPoint (refreshed e s)
      \<and> sensor_reads s' \<le> Suc (sensor_reads s)"
proof -
  let ?s1 = "refreshed e s"
  obtain v s2 where g: "getSmoothedFahrenheit e ?s1 = Returned v s2" "keeps ?s1 s2"
      "setPoint s2 = setPoint ?s1" "baseSetPoint s2 = baseSetPoint ?s1"
      "sensor_reads s2 \<le> Suc (sensor_reads ?s1)"
    using getSmoothed_returns[of e ?s1] by blast
  have k: "keeps s s2" using g(2) refreshed_keeps[of s e] by (simp add: keeps_def)
  have sp: "setPoint s2 = baseSetPoint s2 + manualOffset s2"
    using g refreshed_setPoint[of e s] by (simp add: keeps_def)
  have sr: "sensor_reads s2 \<le> Suc (sensor_reads s)" using g(5) by (simp add: refreshed_frame)
  show ?thesis using k sp sr g(4)
    by (cases "current_state s2"; cases v)
       (simp_all add: updateLights_def refresh_eq g(1) Let_def keeps_def)
qed






section \<open>The actuation decision and the mode cycle\<close>

lemma updateLights_eq:
  assumes "getSmoothedFahrenheit e (refreshed e s) = Returned r s2"
  shows "updateLights e s = Returned ()
           (s2\<lparr>redLight :=
                 (case current_state s of
                    Heat \<Rightarrow> (case r of None \<Rightarrow> Solid
                             | Some t \<Rightarrow> if t < real_of_int (setPoint s2) - HYSTERESIS_F
                                         then Pulsing else Solid)
                  | _ \<Rightarrow> LedOff),
               blueLight :=
                 (case current_state s of
                    Cool \<Rightarrow> (case r of None \<Rightarrow> Solid
                             | Some t \<Rightarrow> if t > real_of_int (setPoint s2) + HYSTERESIS_F
                                         then Pulsing else Solid)
                  | _ \<Rightarrow> LedOff)\<rparr>)"
proof -
  have k: "current_state s2 = current_state s"
    using getSmoothed_returns[of e "refreshed e s"] refreshed_keeps[of s e] assms
    by (auto simp: keeps_def)
  show ?thesis
    by (cases "current_state s"; cases r)
       (simp_all add: updateLights_def refresh_eq assms Let_def k)
qed

text \<open>
  C1. The hysteresis is 1. Every call of \<open>updateLights\<close> returns; the setpoint it compares
  with is the effective one of its refresh; the two LEDs end in one of five
  combinations, at most one of them lit (both off, one solid, one pulsing). In Off both
  are off whatever the temperature and setpoint. With a smoothed temperature \<open>temp\<close>
  present: in Heat the red LED pulses when \<open>temp < setPoint - 1\<close> and is solid otherwise;
  in Cool the blue LED pulses when \<open>temp > setPoint + 1\<close> and is solid otherwise.
\<close>

theorem actuation_policy:
  "HYSTERESIS_F = 1 \<and>
   (\<forall>(e::env) (s::machine). \<exists>s1 r s2 s'.
       refreshEffectiveSetPoint e s = Returned () s1
     \<and> getSmoothedFahrenheit e s1 = Returned r s2
     \<and> updateLights e s = Returned () s'
     \<and> setPoint s' = setPoint s1 \<and> setPoint s1 = baseSetPoint s1 + manualOffset s1
     \<and> (redLight s', blueLight s') \<in>
           {(LedOff, LedOff), (Solid, LedOff), (Pulsing, LedOff), (LedOff, Solid), (LedOff, Pulsing)}
     \<and> (current_state s = Off \<longrightarrow> redLight s' = LedOff \<and> blueLight s' = LedOff)
     \<and> (\<forall>temp. r = Some temp \<longrightarrow>
           (current_state s = Heat \<longrightarrow>
              redLight s' = (if temp < real_of_int (setPoint s') - HYSTERESIS_F then Pulsing else Solid)
              \<and> blueLight s' = LedOff)
         \<and> (current_state s = Cool \<longrightarrow>
              blueLight s' = (if temp > real_of_int (setPoint s') + HYSTERESIS_F then Pulsing else Solid)
              \<and> redLight s' = LedOff)))"
proof (intro conjI allI)
  show "HYSTERESIS_F = 1" by (simp add: HYSTERESIS_F_def)
next
  fix e :: env and s :: machine
  obtain r s2 where g: "getSmoothedFahrenheit e (refreshed e s) = Returned r s2"
      "setPoint s2 = setPoint (refreshed e s)"
    using getSmoothed_returns[of e "refreshed e s"] by blast
  note u = updateLights_eq[OF g(1)]
  show "\<exists>s1 r s2 s'.
       refreshEffectiveSetPoint e s = Returned () s1
     \<and> getSmoothedFahrenheit e s1 = Returned r s2
     \<and> updateLights e s = Returned () s'
     \<and> setPoint s' = setPoint s1 \<and> setPoint s1 = baseSetPoint s1 + manualOffset s1
     \<and> (redLight s', blueLight s') \<in>
           {(LedOff, LedOff), (Solid, LedOff), (Pulsing, LedOff), (LedOff, Solid), (LedOff, Pulsing)}
     \<and> (current_state s = Off \<longrightarrow> redLight s' = LedOff \<and> blueLight s' = LedOff)
     \<and> (\<forall>temp. r = Some temp \<longrightarrow>
           (current_state s = Heat \<longrightarrow>
              redLight s' = (if temp < real_of_int (setPoint s') - HYSTERESIS_F then Pulsing else Solid)
              \<and> blueLight s' = LedOff)
         \<and> (current_state s = Cool \<longrightarrow>
              blueLight s' = (if temp > real_of_int (setPoint s') + HYSTERESIS_F then Pulsing else Solid)
              \<and> redLight s' = LedOff))"
    unfolding refresh_eq u using g refreshed_setPoint[of e s]
    by (cases "current_state s"; cases r) simp_all
qed


lemmas eval_defs =
  TemperatureMachine_init_def MovingAverage_init_def MA_WINDOW_def HYSTERESIS_F_def
  updateLights_def getSmoothedFahrenheit_def getFahrenheit_def on_ma_def push_total
  refresh_eq refreshed_def schedule_base_def schedule_minutes_def schedule_values_def
  bisect_right_def bisect_right_loop.simps SCHEDULE_ENTRIES_def Let_def log_event_def

theorem actuation_policy_witness:
  "\<exists>s1 s2 s'.
      refreshEffectiveSetPoint
        \<lparr>SCHEDULE_ENABLED = True, schedule = SCHEDULE_ENTRIES, thSensor = Some (\<lambda>k. Some 20),
         ser = None, now_minutes = (\<lambda>k. 720)\<rparr>
        (TemperatureMachine_init\<lparr>current_state := Heat\<rparr>) = Returned () s1
    \<and> getSmoothedFahrenheit
        \<lparr>SCHEDULE_ENABLED = True, schedule = SCHEDULE_ENTRIES, thSensor = Some (\<lambda>k. Some 20),
         ser = None, now_minutes = (\<lambda>k. 720)\<rparr> s1 = Returned (Some 68) s2
    \<and> updateLights
        \<lparr>SCHEDULE_ENABLED = True, schedule = SCHEDULE_ENTRIES, thSensor = Some (\<lambda>k. Some 20),
         ser = None, now_minutes = (\<lambda>k. 720)\<rparr>
        (TemperatureMachine_init\<lparr>current_state := Heat\<rparr>) = Returned () s'
    \<and> setPoint s' = 70 \<and> redLight s' = Pulsing \<and> blueLight s' = LedOff"
  using actuation_policy[THEN conjunct2, rule_format,
      of "\<lparr>SCHEDULE_ENABLED = True, schedule = SCHEDULE_ENTRIES, thSensor = Some (\<lambda>k. Some 20),
         ser = None, now_minutes = (\<lambda>k. 720)\<rparr>" "TemperatureMachine_init\<lparr>current_state := Heat\<rparr>"]
  by (simp add: eval_defs)

lemma getFahrenheit_fault:
  "sensor_fault e s \<Longrightarrow> \<exists>s'. getFahrenheit e s = Returned None s' \<and> ma s' = ma s"
  by (auto simp: sensor_fault_def getFahrenheit_def Let_def split: option.splits)

lemma getSmoothed_fault:
  "sensor_fault e s \<Longrightarrow> \<exists>s'. getSmoothedFahrenheit e s = Returned None s' \<and> ma s' = ma s"
  by (auto simp: sensor_fault_def getSmoothedFahrenheit_def getFahrenheit_def Let_def
      split: option.splits)

text \<open>
  C5. When the smoothed temperature is absent, \<open>updateLights\<close> in Heat leaves the red LED
  solid and in Cool the blue LED solid, never pulsing. A sensor fault (no sensor, or a
  read that raises) is absorbed where it happens: \<open>getFahrenheit\<close> returns absent, the
  smoothed read returns absent without touching the filter, and \<open>updateLights\<close> returns
  with the mode's LED solid.
\<close>

theorem sensor_fault_fail_safe:
  "(\<forall>(e::env) (s::machine). \<exists>s1 r s2 s'.
       refreshEffectiveSetPoint e s = Returned () s1
     \<and> getSmoothedFahrenheit e s1 = Returned r s2
     \<and> updateLights e s = Returned () s'
     \<and> (r = None \<longrightarrow>
           (current_state s = Heat \<longrightarrow> redLight s' = Solid \<and> blueLight s' = LedOff)
         \<and> (current_state s = Cool \<longrightarrow> blueLight s' = Solid \<and> redLight s' = LedOff)))
   \<and> (\<forall>(e::env) (s::machine). sensor_fault e s \<longrightarrow>
         (\<exists>s'. getFahrenheit e s = Returned None s')
       \<and> (\<exists>s'. getSmoothedFahrenheit e s = Returned None s' \<and> ma s' = ma s)
       \<and> (\<exists>s'. updateLights e s = Returned () s'
             \<and> (current_state s = Heat \<longrightarrow> redLight s' = Solid \<and> blueLight s' = LedOff)
             \<and> (current_state s = Cool \<longrightarrow> blueLight s' = Solid \<and> redLight s' = LedOff)))"
proof (intro conjI allI impI)
  fix e :: env and s :: machine
  obtain r s2 where g: "getSmoothedFahrenheit e (refreshed e s) = Returned r s2"
    using getSmoothed_returns[of e "refreshed e s"] by blast
  note u = updateLights_eq[OF g(1)]
  show "\<exists>s1 r s2 s'.
       refreshEffectiveSetPoint e s = Returned () s1
     \<and> getSmoothedFahrenheit e s1 = Returned r s2
     \<and> updateLights e s = Returned () s'
     \<and> (r = None \<longrightarrow>
           (current_state s = Heat \<longrightarrow> redLight s' = Solid \<and> blueLight s' = LedOff)
         \<and> (current_state s = Cool \<longrightarrow> blueLight s' = Solid \<and> redLight s' = LedOff))"
    unfolding refresh_eq u using g by (cases "current_state s"; cases r) simp_all
next
  fix e :: env and s :: machine
  assume f: "sensor_fault e s"
  then show "\<exists>s'. getFahrenheit e s = Returned None s'"
    using getFahrenheit_fault by blast
  from f show "\<exists>s'. getSmoothedFahrenheit e s = Returned None s' \<and> ma s' = ma s"
    by (rule getSmoothed_fault)
  from f have "sensor_fault e (refreshed e s)"
    unfolding sensor_fault_def refreshed_frame(1) .
  then obtain s2 where g: "getSmoothedFahrenheit e (refreshed e s) = Returned None s2"
    using getSmoothed_fault by blast
  show "\<exists>s'. updateLights e s = Returned () s'
             \<and> (current_state s = Heat \<longrightarrow> redLight s' = Solid \<and> blueLight s' = LedOff)
             \<and> (current_state s = Cool \<longrightarrow> blueLight s' = Solid \<and> redLight s' = LedOff)"
    unfolding updateLights_eq[OF g] by (cases "current_state s") simp_all
qed

theorem sensor_fault_fail_safe_witness:
  "sensor_fault
      \<lparr>SCHEDULE_ENABLED = True, schedule = SCHEDULE_ENTRIES, thSensor = Some (\<lambda>k. None),
       ser = None, now_minutes = (\<lambda>k. 720)\<rparr> (TemperatureMachine_init\<lparr>current_state := Cool\<rparr>)
   \<and> (\<exists>s'. getFahrenheit
        \<lparr>SCHEDULE_ENABLED = True, schedule = SCHEDULE_ENTRIES, thSensor = Some (\<lambda>k. None),
         ser = None, now_minutes = (\<lambda>k. 720)\<rparr>
        (TemperatureMachine_init\<lparr>current_state := Cool\<rparr>) = Returned None s')
   \<and> (\<exists>s'. updateLights
        \<lparr>SCHEDULE_ENABLED = True, schedule = SCHEDULE_ENTRIES, thSensor = Some (\<lambda>k. None),
         ser = None, now_minutes = (\<lambda>k. 720)\<rparr>
        (TemperatureMachine_init\<lparr>current_state := Cool\<rparr>) = Returned () s'
      \<and> blueLight s' = Solid \<and> redLight s' = LedOff)"
  using sensor_fault_fail_safe[THEN conjunct2, rule_format,
      of "\<lparr>SCHEDULE_ENABLED = True, schedule = SCHEDULE_ENTRIES, thSensor = Some (\<lambda>k. None),
         ser = None, now_minutes = (\<lambda>k. 720)\<rparr>" "TemperatureMachine_init\<lparr>current_state := Cool\<rparr>"]
  by (simp add: sensor_fault_def eval_defs)

lemma cycle_returns:
  "\<exists>s'. cycle e s = Returned () s' \<and> current_state s' = next_mode (current_state s)"
proof (cases "current_state s")
  case Off
  let ?s1 = "(on_exit Off s)\<lparr>current_state := Heat\<rparr>"
  obtain s' where "updateLights e ?s1 = Returned () s'" "keeps ?s1 s'"
    using updateLights_returns[of e ?s1] by blast
  with Off show ?thesis
    by (simp add: cycle_def cycle_transitions_def keeps_def log_event_def)
next
  case Heat
  let ?s1 = "(on_exit Heat s)\<lparr>current_state := Cool\<rparr>"
  obtain s' where "updateLights e ?s1 = Returned () s'" "keeps ?s1 s'"
    using updateLights_returns[of e ?s1] by blast
  with Heat show ?thesis
    by (simp add: cycle_def cycle_transitions_def keeps_def log_event_def)
next
  case Cool
  then show ?thesis
    by (simp add: cycle_def cycle_transitions_def log_event_def)
qed

text \<open>
  C7. The \<open>cycle\<close> event, and the mode button that fires it, always returns and moves the
  mode to its successor in Off, Heat, Cool, Off; three events in a row pass through two
  other modes and come back to the first, so the successor map is a permutation of
  order 3. Nothing else moves the mode: the setpoint buttons and \<open>updateLights\<close> leave it.
\<close>

theorem mode_cycle:
  "(\<forall>(e::env) (s::machine). \<exists>s'. cycle e s = Returned () s'
        \<and> current_state s' = next_mode (current_state s))
   \<and> (\<forall>(e::env) (s::machine). \<exists>s'. processTempStateButton e s = Returned () s'
        \<and> current_state s' = next_mode (current_state s))
   \<and> (\<forall>(e::env) (s::machine). \<exists>s1 s2 s3.
          cycle e s = Returned () s1 \<and> cycle e s1 = Returned () s2 \<and> cycle e s2 = Returned () s3
        \<and> current_state s1 \<noteq> current_state s \<and> current_state s2 \<noteq> current_state s
        \<and> current_state s3 = current_state s)
   \<and> (\<forall>m. next_mode (next_mode (next_mode m)) = m \<and> next_mode m \<noteq> m
           \<and> next_mode (next_mode m) \<noteq> m)
   \<and> (\<forall>(e::env) (s::machine). \<exists>s1 s2 s3.
          processTempIncButton e s = Returned () s1 \<and> current_state s1 = current_state s
        \<and> processTempDecButton e s = Returned () s2 \<and> current_state s2 = current_state s
        \<and> updateLights e s = Returned () s3 \<and> current_state s3 = current_state s)"
proof (intro conjI allI)
  fix e :: env and s :: machine
  show "\<exists>s'. cycle e s = Returned () s' \<and> current_state s' = next_mode (current_state s)"
    by (rule cycle_returns)
  show "\<exists>s'. processTempStateButton e s = Returned () s'
        \<and> current_state s' = next_mode (current_state s)"
    using cycle_returns[of e "log_event ''button:mode'' s"]
    by (simp add: processTempStateButton_def log_event_def)
  obtain s1 where s1: "cycle e s = Returned () s1" "current_state s1 = next_mode (current_state s)"
    using cycle_returns[of e s] by blast
  obtain s2 where s2: "cycle e s1 = Returned () s2" "current_state s2 = next_mode (current_state s1)"
    using cycle_returns[of e s1] by blast
  obtain s3 where s3: "cycle e s2 = Returned () s3" "current_state s3 = next_mode (current_state s2)"
    using cycle_returns[of e s2] by blast
  show "\<exists>s1 s2 s3.
          cycle e s = Returned () s1 \<and> cycle e s1 = Returned () s2 \<and> cycle e s2 = Returned () s3
        \<and> current_state s1 \<noteq> current_state s \<and> current_state s2 \<noteq> current_state s
        \<and> current_state s3 = current_state s"
    using s1 s2 s3 by (cases "current_state s") simp_all
  let ?i = "log_event ''button:increase'' (s\<lparr>manualOffset := manualOffset s + 1\<rparr>)"
  let ?d = "log_event ''button:decrease'' (s\<lparr>manualOffset := manualOffset s - 1\<rparr>)"
  obtain t1 where t1: "updateLights e (refreshed e ?i) = Returned () t1" "keeps (refreshed e ?i) t1"
    using updateLights_returns[of e "refreshed e ?i"] by blast
  obtain t2 where t2: "updateLights e (refreshed e ?d) = Returned () t2" "keeps (refreshed e ?d) t2"
    using updateLights_returns[of e "refreshed e ?d"] by blast
  obtain t3 where t3: "updateLights e s = Returned () t3" "keeps s t3"
    using updateLights_returns[of e s] by blast
  show "\<exists>s1 s2 s3.
          processTempIncButton e s = Returned () s1 \<and> current_state s1 = current_state s
        \<and> processTempDecButton e s = Returned () s2 \<and> current_state s2 = current_state s
        \<and> updateLights e s = Returned () s3 \<and> current_state s3 = current_state s"
    using t1 t2 t3 refreshed_keeps[of ?i e] refreshed_keeps[of ?d e]
    by (simp add: processTempIncButton_def processTempDecButton_def Let_def refresh_eq
          keeps_def log_event_def)
next
  fix m
  show "next_mode (next_mode (next_mode m)) = m" by (cases m) simp_all
  show "next_mode m \<noteq> m" by (cases m) simp_all
  show "next_mode (next_mode m) \<noteq> m" by (cases m) simp_all
qed

theorem mode_cycle_witness:
  "\<exists>s1 s2 s3.
      cycle \<lparr>SCHEDULE_ENABLED = True, schedule = SCHEDULE_ENTRIES, thSensor = None,
         ser = None, now_minutes = (\<lambda>k. 720)\<rparr> TemperatureMachine_init = Returned () s1
    \<and> current_state s1 = Heat \<and> redLight s1 = Solid
    \<and> cycle \<lparr>SCHEDULE_ENABLED = True, schedule = SCHEDULE_ENTRIES, thSensor = None,
         ser = None, now_minutes = (\<lambda>k. 720)\<rparr> s1 = Returned () s2
    \<and> current_state s2 = Cool \<and> redLight s2 = LedOff \<and> blueLight s2 = Solid
    \<and> cycle \<lparr>SCHEDULE_ENABLED = True, schedule = SCHEDULE_ENTRIES, thSensor = None,
         ser = None, now_minutes = (\<lambda>k. 720)\<rparr> s2 = Returned () s3
    \<and> current_state s3 = Off \<and> blueLight s3 = LedOff"
  using mode_cycle[THEN conjunct1, rule_format,
      of "\<lparr>SCHEDULE_ENABLED = True, schedule = SCHEDULE_ENTRIES, thSensor = None,
         ser = None, now_minutes = (\<lambda>k. 720)\<rparr>" TemperatureMachine_init]
  by (simp add: cycle_def cycle_transitions_def eval_defs)



section \<open>The status line\<close>

lemma setupSerialOutput_eq:
  assumes "getSmoothedFahrenheit e s = Returned r s1"
  shows "setupSerialOutput e s =
           Returned (state_id (current_state s) @ '','' @
                     (case r of None \<Rightarrow> ''NA'' | Some t \<Rightarrow> show_int \<lfloor>t\<rfloor>) @ '','' @
                     show_int (setPoint s)) s1"
proof -
  have "setPoint s1 = setPoint s" using getSmoothed_returns[of e s] assms by auto
  then show ?thesis by (cases r) (simp_all add: setupSerialOutput_def assms Let_def)
qed

lemma log_part_returns:
  "\<exists>r s3. getSmoothedFahrenheit e s = Returned r s3 \<and>
     (case getSmoothedFahrenheit e s of
        Raised err s3 \<Rightarrow> s3
      | Returned temp_val s3 \<Rightarrow>
          log_reading (case temp_val of None \<Rightarrow> 0 | Some t \<Rightarrow> t)
            (setPoint s3) (state_id (current_state s3)) s3)
     = log_reading (case r of None \<Rightarrow> 0 | Some t \<Rightarrow> t) (setPoint s) (state_id (current_state s)) s3
     \<and> keeps s s3 \<and> sensor_reads s3 \<le> Suc (sensor_reads s)"
proof -
  obtain r s3 where g: "getSmoothedFahrenheit e s = Returned r s3" "keeps s s3"
      "setPoint s3 = setPoint s" "sensor_reads s3 \<le> Suc (sensor_reads s)"
    using getSmoothed_returns[of e s] by blast
  then show ?thesis by (simp add: keeps_def)
qed

lemma status_step_sent:
  assumes "ser e = Some w" and "w (serial_writes s)"
    and "getSmoothedFahrenheit e s = Returned r s1"
  shows "\<exists>r3 s3.
      getSmoothedFahrenheit e
        (s1\<lparr>serial_writes := Suc (serial_writes s1),
            serial_out := serial_out s1 @ [status_line (current_state s) r (setPoint s)]\<rparr>)
        = Returned r3 s3
    \<and> status_step e s =
        log_reading (case r3 of None \<Rightarrow> 0 | Some t \<Rightarrow> t) (setPoint s) (state_id (current_state s)) s3
    \<and> serial_out (status_step e s) = serial_out s @ [status_line (current_state s) r (setPoint s)]
    \<and> serial_writes (status_step e s) = Suc (serial_writes s)"
proof -
  have k1: "keeps s s1" "setPoint s1 = setPoint s"
    using getSmoothed_returns[of e s] assms(3) by auto
  let ?s2 = "s1\<lparr>serial_writes := Suc (serial_writes s1),
            serial_out := serial_out s1 @ [status_line (current_state s) r (setPoint s)]\<rparr>"
  obtain r3 s3 where g: "getSmoothedFahrenheit e ?s2 = Returned r3 s3" "keeps ?s2 s3"
      "setPoint s3 = setPoint ?s2"
    using getSmoothed_returns[of e ?s2] by blast
  have w1: "w (serial_writes s1)" using assms(2) k1 by (simp add: keeps_def)
  have st: "status_step e s =
        log_reading (case r3 of None \<Rightarrow> 0 | Some t \<Rightarrow> t) (setPoint s) (state_id (current_state s)) s3"
    using g k1 w1
    by (simp add: status_step_def assms(1) setupSerialOutput_eq[OF assms(3)] Let_def
          status_line_def keeps_def)
  show ?thesis using g k1 unfolding st
    by (auto simp: log_reading_def keeps_def)
qed


lemma status_line_examples:
  "status_line Heat (Some (697 / 10)) 70 = ''heat,69,70'' @ [CHR 0x0A]"
  "status_line Heat None 70 = ''heat,NA,70'' @ [CHR 0x0A]"
  by (simp_all add: status_line_def show_int_def show_nat.simps digit_char_def newline_def)

lemma state_id_range: "state_id md \<in> {''off'', ''heat'', ''cool''}"
  by (cases md) simp_all

text \<open>
  C6. \<open>setupSerialOutput\<close> always returns, and the line is the mode's id (one of off,
  heat, cool), a comma, the floor of the smoothed Fahrenheit value it has just read or
  the token NA when that value is absent, a comma, and the integer setpoint; a status
  emission whose write succeeds appends exactly this line and a line feed to what the
  port has received. Mode Heat, smoothed value 69.7 and setpoint 70 give "heat,69,70"
  and a line feed; an absent value gives "heat,NA,70" and a line feed.
\<close>

theorem status_line_format:
  "(\<forall>(e::env) (s::machine). \<exists>r s1.
       getSmoothedFahrenheit e s = Returned r s1
     \<and> setupSerialOutput e s =
         Returned (state_id (current_state s) @ '','' @
                   (case r of None \<Rightarrow> ''NA'' | Some t \<Rightarrow> show_int \<lfloor>t\<rfloor>) @ '','' @
                   show_int (setPoint s)) s1
     \<and> state_id (current_state s) \<in> {''off'', ''heat'', ''cool''}
     \<and> (\<forall>w. ser e = Some w \<and> w (serial_writes s) \<longrightarrow>
           serial_out (status_step e s) =
             serial_out s @
               [state_id (current_state s) @ '','' @
                (case r of None \<Rightarrow> ''NA'' | Some t \<Rightarrow> show_int \<lfloor>t\<rfloor>) @ '','' @
                show_int (setPoint s) @ [CHR 0x0A]]))
   \<and> (\<forall>(e::env) (s::machine). \<exists>s1.
         getSmoothedFahrenheit (e\<lparr>thSensor := Some (\<lambda>k. Some (377 / 18)), ser := Some (\<lambda>k. True)\<rparr>)
           (s\<lparr>current_state := Heat, setPoint := 70, ma := MovingAverage_init MA_WINDOW\<rparr>)
           = Returned (Some (697 / 10)) s1
       \<and> serial_out (status_step (e\<lparr>thSensor := Some (\<lambda>k. Some (377 / 18)), ser := Some (\<lambda>k. True)\<rparr>)
           (s\<lparr>current_state := Heat, setPoint := 70, ma := MovingAverage_init MA_WINDOW\<rparr>))
           = serial_out s @ [''heat,69,70'' @ [CHR 0x0A]])
   \<and> (\<forall>(e::env) (s::machine). \<exists>s1.
         getSmoothedFahrenheit (e\<lparr>thSensor := None, ser := Some (\<lambda>k. True)\<rparr>)
           (s\<lparr>current_state := Heat, setPoint := 70\<rparr>) = Returned None s1
       \<and> serial_out (status_step (e\<lparr>thSensor := None, ser := Some (\<lambda>k. True)\<rparr>)
           (s\<lparr>current_state := Heat, setPoint := 70\<rparr>))
           = serial_out s @ [''heat,NA,70'' @ [CHR 0x0A]])"
proof (intro conjI allI)
  fix e :: env and s :: machine
  obtain r s1 where g: "getSmoothedFahrenheit e s = Returned r s1"
    using getSmoothed_returns[of e s] by blast
  have sent: "\<forall>w. ser e = Some w \<and> w (serial_writes s) \<longrightarrow>
           serial_out (status_step e s) =
             serial_out s @
               [state_id (current_state s) @ '','' @
                (case r of None \<Rightarrow> ''NA'' | Some t \<Rightarrow> show_int \<lfloor>t\<rfloor>) @ '','' @
                show_int (setPoint s) @ [CHR 0x0A]]"
  proof (intro allI impI)
    fix w assume "ser e = Some w \<and> w (serial_writes s)"
    then show "serial_out (status_step e s) =
             serial_out s @
               [state_id (current_state s) @ '','' @
                (case r of None \<Rightarrow> ''NA'' | Some t \<Rightarrow> show_int \<lfloor>t\<rfloor>) @ '','' @
                show_int (setPoint s) @ [CHR 0x0A]]"
      using status_step_sent[of e w s r s1] g by (auto simp: status_line_def newline_def)
  qed
  show "\<exists>r s1.
       getSmoothedFahrenheit e s = Returned r s1
     \<and> setupSerialOutput e s =
         Returned (state_id (current_state s) @ '','' @
                   (case r of None \<Rightarrow> ''NA'' | Some t \<Rightarrow> show_int \<lfloor>t\<rfloor>) @ '','' @
                   show_int (setPoint s)) s1
     \<and> state_id (current_state s) \<in> {''off'', ''heat'', ''cool''}
     \<and> (\<forall>w. ser e = Some w \<and> w (serial_writes s) \<longrightarrow>
           serial_out (status_step e s) =
             serial_out s @
               [state_id (current_state s) @ '','' @
                (case r of None \<Rightarrow> ''NA'' | Some t \<Rightarrow> show_int \<lfloor>t\<rfloor>) @ '','' @
                show_int (setPoint s) @ [CHR 0x0A]])"
    using g setupSerialOutput_eq[OF g] state_id_range[of "current_state s"] sent by blast
next
  fix e :: env and s :: machine
  let ?e = "e\<lparr>thSensor := Some (\<lambda>k. Some (377 / 18)), ser := Some (\<lambda>k. True)\<rparr>"
  let ?s = "s\<lparr>current_state := Heat, setPoint := 70, ma := MovingAverage_init MA_WINDOW\<rparr>"
  obtain s1 where g: "getSmoothedFahrenheit ?e ?s = Returned (Some (697 / 10)) s1"
    by (simp add: getSmoothedFahrenheit_def getFahrenheit_def on_ma_def push_total
          MovingAverage_init_def MA_WINDOW_def Let_def)
  have "serial_out (status_step ?e ?s) = serial_out ?s @ [status_line Heat (Some (697 / 10)) 70]"
    using status_step_sent[of ?e "\<lambda>k. True" ?s "Some (697 / 10)" s1] g by auto
  then show "\<exists>s1. getSmoothedFahrenheit ?e ?s = Returned (Some (697 / 10)) s1
       \<and> serial_out (status_step ?e ?s) = serial_out s @ [''heat,69,70'' @ [CHR 0x0A]]"
    using g by (simp add: status_line_examples)
next
  fix e :: env and s :: machine
  let ?e = "e\<lparr>thSensor := None, ser := Some (\<lambda>k. True)\<rparr>"
  let ?s = "s\<lparr>current_state := Heat, setPoint := 70\<rparr>"
  obtain s1 where g: "getSmoothedFahrenheit ?e ?s = Returned None s1"
    by (simp add: getSmoothedFahrenheit_def getFahrenheit_def)
  have "serial_out (status_step ?e ?s) = serial_out ?s @ [status_line Heat None 70]"
    using status_step_sent[of ?e "\<lambda>k. True" ?s None s1] g by auto
  then show "\<exists>s1. getSmoothedFahrenheit ?e ?s = Returned None s1
       \<and> serial_out (status_step ?e ?s) = serial_out s @ [''heat,NA,70'' @ [CHR 0x0A]]"
    using g by (simp add: status_line_examples)
qed

theorem status_line_format_witness:
  "ser \<lparr>SCHEDULE_ENABLED = True, schedule = SCHEDULE_ENTRIES, thSensor = Some (\<lambda>k. Some 25),
        ser = Some (\<lambda>k. True), now_minutes = (\<lambda>k. 720)\<rparr> = Some (\<lambda>k. True)
   \<and> (\<exists>s1. getSmoothedFahrenheit
        \<lparr>SCHEDULE_ENABLED = True, schedule = SCHEDULE_ENTRIES, thSensor = Some (\<lambda>k. Some 25),
         ser = Some (\<lambda>k. True), now_minutes = (\<lambda>k. 720)\<rparr>
        (TemperatureMachine_init\<lparr>current_state := Cool\<rparr>) = Returned (Some 77) s1)
   \<and> serial_out (status_step
        \<lparr>SCHEDULE_ENABLED = True, schedule = SCHEDULE_ENTRIES, thSensor = Some (\<lambda>k. Some 25),
         ser = Some (\<lambda>k. True), now_minutes = (\<lambda>k. 720)\<rparr>
        (TemperatureMachine_init\<lparr>current_state := Cool\<rparr>)) = [''cool,77,72'' @ [CHR 0x0A]]"
  using status_line_format[THEN conjunct1, rule_format,
      of "\<lparr>SCHEDULE_ENABLED = True, schedule = SCHEDULE_ENTRIES, thSensor = Some (\<lambda>k. Some 25),
         ser = Some (\<lambda>k. True), now_minutes = (\<lambda>k. 720)\<rparr>"
         "TemperatureMachine_init\<lparr>current_state := Cool\<rparr>"]
  by (simp add: eval_defs status_step_def setupSerialOutput_def log_reading_def
        show_int_def show_nat.simps digit_char_def newline_def)


section \<open>The control loop\<close>

lemma sensor_reads_present:
  assumes "thSensor e \<noteq> None" and "getSmoothedFahrenheit e s = Returned r s'"
  shows "sensor_reads s' = Suc (sensor_reads s)"
  using assms
  by (auto simp: getSmoothedFahrenheit_def getFahrenheit_def on_ma_def push_total Let_def
      split: option.splits)

lemma display_step_returns:
  "\<exists>line s'. display_step e a s = Returned (line, next_alt a) s' \<and> keeps s s'
      \<and> sensor_reads s' \<le> Suc (sensor_reads s)"
proof (cases "a < 6")
  case True
  obtain r s1 where g: "getSmoothedFahrenheit e s = Returned r s1" "keeps s s1"
      "sensor_reads s1 \<le> Suc (sensor_reads s)"
    using getSmoothed_returns[of e s] by blast
  with True show ?thesis by (simp add: display_step_def next_alt_def Let_def)
next
  case False
  obtain s1 where u: "updateLights e s = Returned () s1" "keeps s s1"
      "sensor_reads s1 \<le> Suc (sensor_reads s)"
    using updateLights_returns[of e s] by blast
  have "keeps s s" by (simp add: keeps_def)
  with False u show ?thesis by (auto simp: display_step_def next_alt_def Let_def)
qed

lemma display_step_temperature:
  assumes "a < 6" and "getSmoothedFahrenheit e s = Returned r s1"
  shows "display_step e a s =
           Returned (ljust16 (''Temp:'' @ (case r of None \<Rightarrow> ''--'' | Some t \<Rightarrow> show_int \<lfloor>t\<rfloor>)
                       @ ''F Set:'' @ show_int (setPoint s) @ ''F''), a + 1) s1"
proof -
  have "setPoint s1 = setPoint s" using getSmoothed_returns[of e s] assms(2) by auto
  then show ?thesis using assms by (simp add: display_step_def Let_def)
qed

lemma status_step_frame:
  "endDisplay (status_step e s) = endDisplay s \<and> current_state (status_step e s) = current_state s
   \<and> sensor_reads (status_step e s) \<le> sensor_reads s + 2
   \<and> (\<forall>w. ser e = Some w \<and> w (serial_writes s) \<longrightarrow>
         (\<exists>r. serial_out (status_step e s)
               = serial_out s @ [status_line (current_state s) r (setPoint s)]))
   \<and> (ser e = None \<longrightarrow> serial_out (status_step e s) = serial_out s)
   \<and> (\<forall>w. ser e = Some w \<and> \<not> w (serial_writes s) \<longrightarrow>
         serial_out (status_step e s) = serial_out s)"
proof -
  obtain r s1 where g: "getSmoothedFahrenheit e s = Returned r s1" "keeps s s1"
      "sensor_reads s1 \<le> Suc (sensor_reads s)"
    using getSmoothed_returns[of e s] by blast
  show ?thesis
  proof (cases "ser e")
    case None
    then show ?thesis using g
      by (simp add: status_step_def log_reading_def keeps_def)
  next
    case (Some w)
    show ?thesis
    proof (cases "w (serial_writes s)")
      case False
      then show ?thesis using g Some
        by (simp add: status_step_def setupSerialOutput_eq[OF g(1)] keeps_def Let_def)
    next
      case True
      let ?s2 = "s1\<lparr>serial_writes := Suc (serial_writes s1),
            serial_out := serial_out s1 @ [status_line (current_state s) r (setPoint s)]\<rparr>"
      obtain r3 s3 where h: "getSmoothedFahrenheit e ?s2 = Returned r3 s3"
          "status_step e s = log_reading (case r3 of None \<Rightarrow> 0 | Some t \<Rightarrow> t) (setPoint s)
             (state_id (current_state s)) s3"
          "serial_out (status_step e s) = serial_out s @ [status_line (current_state s) r (setPoint s)]"
        using status_step_sent[OF Some True g(1)] by blast
      have k: "keeps ?s2 s3" "sensor_reads s3 \<le> Suc (sensor_reads ?s2)"
        using getSmoothed_returns[of e ?s2] h(1) by auto
      have "\<exists>r. serial_out (status_step e s)
               = serial_out s @ [status_line (current_state s) r (setPoint s)]"
        using h(3) by blast
      then show ?thesis using g k Some True unfolding h(2)
        by (simp add: log_reading_def keeps_def)
    qed
  qed
qed

lemma body_returns:
  "\<exists>s'. manageMyDisplay_body e (c, a) s
          = Returned (if c mod 30 = 0 then 1 else c + 1, next_alt a) s'
      \<and> endDisplay s' = endDisplay s \<and> current_state s' = current_state s
      \<and> sensor_reads s' \<le> sensor_reads s + 3
      \<and> (c mod 30 \<noteq> 0 \<longrightarrow> serial_out s' = serial_out s)
      \<and> (c mod 30 = 0 \<longrightarrow>
           (\<forall>w. ser e = Some w \<and> w (serial_writes s) \<longrightarrow>
              (\<exists>r sp. serial_out s' = serial_out s @ [status_line (current_state s) r sp]))
         \<and> (ser e = None \<longrightarrow> serial_out s' = serial_out s)
         \<and> (\<forall>w. ser e = Some w \<and> \<not> w (serial_writes s) \<longrightarrow> serial_out s' = serial_out s))"
proof -
  let ?s1 = "refreshed e s"
  obtain line s2 where d: "display_step e a ?s1 = Returned (line, next_alt a) s2" "keeps ?s1 s2"
      "sensor_reads s2 \<le> Suc (sensor_reads ?s1)"
    using display_step_returns[of e a ?s1] by blast
  let ?s3 = "updateScreen line s2"
  have k3: "keeps s ?s3" "sensor_reads ?s3 \<le> Suc (sensor_reads s)"
    using d refreshed_keeps[of s e] by (simp_all add: keeps_def updateScreen_def refreshed_frame)
  show ?thesis
  proof (cases "c mod 30 = 0")
    case False
    then show ?thesis using d(1) k3
      by (simp add: manageMyDisplay_body_def refresh_eq STATUS_PERIOD_S_def keeps_def)
  next
    case True
    have b: "manageMyDisplay_body e (c, a) s = Returned (1, next_alt a) (status_step e ?s3)"
      using True d(1) by (simp add: manageMyDisplay_body_def refresh_eq STATUS_PERIOD_S_def)
    show ?thesis using True k3 status_step_frame[of e ?s3] unfolding b
      by (simp add: keeps_def) blast
  qed
qed


lemma then_do_assoc:
  "then_do (then_do x f) g = then_do x (\<lambda>a s. then_do (f a s) g)"
  by (cases x) simp_all

lemma loop_unroll_last:
  "manageMyDisplay_loop e (Suc n) cs s =
     then_do (manageMyDisplay_loop e n cs s)
       (\<lambda>cs' s'. if endDisplay s' then Returned cs' s' else manageMyDisplay_body e cs' s')"
proof (induction n arbitrary: cs s)
  case 0
  show ?case
  proof (cases "manageMyDisplay_body e cs s")
    case (Raised err s') then show ?thesis by simp
  next
    case (Returned cs' s') then show ?thesis by simp
  qed
next
  case (Suc n)
  show ?case
  proof (cases "endDisplay s")
    case True
    then show ?thesis
      by (simp only: manageMyDisplay_loop.simps(2)[of e "Suc n"]
            manageMyDisplay_loop.simps(2)[of e n] if_True then_do.simps)
  next
    case False
    have "manageMyDisplay_loop e (Suc (Suc n)) cs s =
        then_do (manageMyDisplay_body e cs s) (\<lambda>cs' s'. manageMyDisplay_loop e (Suc n) cs' s')"
      using False by (simp only: manageMyDisplay_loop.simps(2)[of e "Suc n"] if_False)
    also have "\<dots> = then_do (manageMyDisplay_body e cs s)
        (\<lambda>cs' s'. then_do (manageMyDisplay_loop e n cs' s')
          (\<lambda>cs' s'. if endDisplay s' then Returned cs' s' else manageMyDisplay_body e cs' s'))"
      by (simp only: Suc.IH)
    also have "\<dots> = then_do (then_do (manageMyDisplay_body e cs s)
          (\<lambda>cs' s'. manageMyDisplay_loop e n cs' s'))
          (\<lambda>cs' s'. if endDisplay s' then Returned cs' s' else manageMyDisplay_body e cs' s')"
      by (simp only: then_do_assoc)
    also have "\<dots> = then_do (manageMyDisplay_loop e (Suc n) cs s)
          (\<lambda>cs' s'. if endDisplay s' then Returned cs' s' else manageMyDisplay_body e cs' s')"
      using False by (simp only: manageMyDisplay_loop.simps(2)[of e n] if_False)
    finally show ?thesis .
  qed
qed

lemma counter_step:
  "(if (int (k mod 30) + 1) mod 30 = 0 then 1 else int (k mod 30) + 1 + 1) = int (Suc k mod 30) + 1"
proof -
  have r: "k mod 30 < 30" by simp
  show ?thesis
  proof (cases "k mod 30 = 29")
    case True
    then show ?thesis by (simp add: mod_Suc)
  next
    case False
    with r have lt: "Suc (k mod 30) < 30" by arith
    then have "(int (k mod 30) + 1) mod 30 = int (k mod 30) + 1" by simp
    then show ?thesis using False lt by (simp add: mod_Suc)
  qed
qed


lemma counter_fires: "((int (k mod 30) + 1) mod 30 = 0) = (k mod 30 = 29)"
proof -
  have r: "k mod 30 < 30" by simp
  show ?thesis
  proof (cases "k mod 30 = 29")
    case True
    then show ?thesis by simp
  next
    case False
    with r have "Suc (k mod 30) < 30" by arith
    then have "(int (k mod 30) + 1) mod 30 = int (k mod 30) + 1" by simp
    then show ?thesis using False by simp
  qed
qed

lemma alt_step: "next_alt (int (k mod 10) + 1) = int (Suc k mod 10) + 1"
proof -
  have r: "k mod 10 < 10" by simp
  show ?thesis
  proof (cases "k mod 10 = 9")
    case True
    then show ?thesis by (simp add: next_alt_def mod_Suc)
  next
    case False
    with r have "Suc (k mod 10) < 10" by arith
    then show ?thesis using False by (simp add: next_alt_def mod_Suc)
  qed
qed

lemma div_step: "Suc k div 30 = k div 30 + (if (int (k mod 30) + 1) mod 30 = 0 then 1 else 0)"
  unfolding counter_fires by (simp add: div_Suc mod_Suc)

lemma loop_cadence:
  assumes w: "ser e = Some w" "\<forall>j. w j"
  shows "\<not> endDisplay s \<Longrightarrow>
     \<exists>s'. manageMyDisplay_loop e n (int (k mod 30) + 1, int (k mod 10) + 1) s
            = Returned (int ((k + n) mod 30) + 1, int ((k + n) mod 10) + 1) s'
        \<and> \<not> endDisplay s'
        \<and> length (serial_out s') + k div 30 = length (serial_out s) + (k + n) div 30"
proof (induction n arbitrary: k s)
  case 0
  then show ?case by simp
next
  case (Suc n)
  let ?c = "int (k mod 30) + 1" and ?a = "int (k mod 10) + 1"
  from body_returns[of e ?c ?a s] obtain s1 where b0:
      "manageMyDisplay_body e (?c, ?a) s
          = Returned (if ?c mod 30 = 0 then 1 else ?c + 1, next_alt ?a) s1
      \<and> endDisplay s1 = endDisplay s \<and> current_state s1 = current_state s
      \<and> sensor_reads s1 \<le> sensor_reads s + 3
      \<and> (?c mod 30 \<noteq> 0 \<longrightarrow> serial_out s1 = serial_out s)
      \<and> (?c mod 30 = 0 \<longrightarrow>
           (\<forall>w. ser e = Some w \<and> w (serial_writes s) \<longrightarrow>
              (\<exists>r sp. serial_out s1 = serial_out s @ [status_line (current_state s) r sp]))
         \<and> (ser e = None \<longrightarrow> serial_out s1 = serial_out s)
         \<and> (\<forall>w. ser e = Some w \<and> \<not> w (serial_writes s) \<longrightarrow> serial_out s1 = serial_out s))" ..
  have b: "manageMyDisplay_body e (?c, ?a) s
          = Returned (if ?c mod 30 = 0 then 1 else ?c + 1, next_alt ?a) s1"
      "endDisplay s1 = endDisplay s"
      "?c mod 30 \<noteq> 0 \<longrightarrow> serial_out s1 = serial_out s"
    using b0 by blast+
  have ws: "ser e = Some w \<and> w (serial_writes s)" using w by simp
  have b4: "?c mod 30 = 0 \<longrightarrow> length (serial_out s1) = Suc (length (serial_out s))"
  proof
    assume "?c mod 30 = 0"
    with b0 have "\<forall>w. ser e = Some w \<and> w (serial_writes s) \<longrightarrow>
              (\<exists>r sp. serial_out s1 = serial_out s @ [status_line (current_state s) r sp])" by blast
    with ws obtain r sp where "serial_out s1 = serial_out s @ [status_line (current_state s) r sp]"
      by blast
    then show "length (serial_out s1) = Suc (length (serial_out s))" by simp
  qed
  have b1: "manageMyDisplay_body e (?c, ?a) s
          = Returned (int (Suc k mod 30) + 1, int (Suc k mod 10) + 1) s1"
    using b(1) unfolding counter_step alt_step .
  have len: "length (serial_out s1) + k div 30 = length (serial_out s) + Suc k div 30"
    using b(3) b4 unfolding div_step[of k] by (cases "(int (k mod 30) + 1) mod 30 = 0") simp_all
  have nd: "\<not> endDisplay s1" using b(2) Suc.prems by simp
  obtain s' where ih: "manageMyDisplay_loop e n (int (Suc k mod 30) + 1, int (Suc k mod 10) + 1) s1
            = Returned (int ((Suc k + n) mod 30) + 1, int ((Suc k + n) mod 10) + 1) s'"
      "\<not> endDisplay s'"
      "length (serial_out s') + Suc k div 30 = length (serial_out s1) + (Suc k + n) div 30"
    using Suc.IH[OF nd, of "Suc k"] by blast
  have "length (serial_out s') + k div 30 = length (serial_out s) + (k + Suc n) div 30"
    using ih(3) len by simp
  moreover have "manageMyDisplay_loop e (Suc n) (?c, ?a) s
      = manageMyDisplay_loop e n (int (Suc k mod 30) + 1, int (Suc k mod 10) + 1) s1"
    using Suc.prems by (simp only: manageMyDisplay_loop.simps(2) if_False b1 then_do.simps)
  moreover have "Suc k + n = k + Suc n" by simp
  ultimately show ?case using ih(1,2) by (intro exI[of _ s']) (simp only: simp_thms)
qed


lemma ljust16_idem: "ljust16 (ljust16 x) = ljust16 x"
proof -
  have "length (ljust16 x) = 16" by (simp add: ljust16_def)
  then show ?thesis by (simp add: ljust16_def[of "ljust16 x"])
qed

lemma loop_counters:
  "\<not> endDisplay s \<Longrightarrow>
     \<exists>s'. manageMyDisplay_loop e n (int (k mod 30) + 1, int (k mod 10) + 1) s
            = Returned (int ((k + n) mod 30) + 1, int ((k + n) mod 10) + 1) s'
        \<and> \<not> endDisplay s'"
proof (induction n arbitrary: k s)
  case 0
  then show ?case by simp
next
  case (Suc n)
  let ?c = "int (k mod 30) + 1" and ?a = "int (k mod 10) + 1"
  from body_returns[of e ?c ?a s] obtain s1 where b:
      "manageMyDisplay_body e (?c, ?a) s
          = Returned (if ?c mod 30 = 0 then 1 else ?c + 1, next_alt ?a) s1"
      "endDisplay s1 = endDisplay s"
    by (elim exE conjE)
  have b1: "manageMyDisplay_body e (?c, ?a) s
          = Returned (int (Suc k mod 30) + 1, int (Suc k mod 10) + 1) s1"
    using b(1) unfolding counter_step alt_step .
  have nd: "\<not> endDisplay s1" using b(2) Suc.prems by simp
  from Suc.IH[OF nd, of "Suc k"] obtain s' where ih:
      "manageMyDisplay_loop e n (int (Suc k mod 30) + 1, int (Suc k mod 10) + 1) s1
            = Returned (int ((Suc k + n) mod 30) + 1, int ((Suc k + n) mod 10) + 1) s'"
      "\<not> endDisplay s'"
    by (elim exE conjE)
  have "manageMyDisplay_loop e (Suc n) (?c, ?a) s
      = manageMyDisplay_loop e n (int (Suc k mod 30) + 1, int (Suc k mod 10) + 1) s1"
    using Suc.prems by (simp only: manageMyDisplay_loop.simps(2) if_False b1 then_do.simps)
  moreover have "Suc k + n = k + Suc n" by simp
  ultimately show ?case using ih by (intro exI[of _ s']) (simp only: simp_thms)
qed


text \<open>
  C9. The status period is 30. While the loop is not told to stop: after \<open>n\<close> iterations
  from the initial counters the status counter is \<open>n mod 30 + 1\<close> and the alternation
  counter \<open>n mod 10 + 1\<close> (so both are back at 1, never 0, after firing); iteration
  \<open>n + 1\<close> leaves the serial output alone unless \<open>n + 1\<close> is a multiple of 30, so
  nothing is sent at start-up, and when it is a multiple of 30 and the port takes the
  write it appends exactly one status line. With a port that takes every write,
  \<open>n div 30\<close> lines have been transmitted after \<open>n\<close> iterations. In every iteration the
  status counter becomes 1 when it was a multiple of 30 and grows by one otherwise, and
  the alternation counter becomes 1 when it reaches 11.
\<close>

theorem status_every_thirty_ticks:
  "STATUS_PERIOD_S = 30
   \<and> (\<forall>(e::env) (s::machine) n. \<not> endDisplay s \<longrightarrow>
        (\<exists>s' s''.
            manageMyDisplay e n s = Returned (int (n mod 30) + 1, int (n mod 10) + 1) s'
          \<and> manageMyDisplay e (Suc n) s
              = Returned (int (Suc n mod 30) + 1, int (Suc n mod 10) + 1) s''
          \<and> (Suc n mod 30 \<noteq> 0 \<longrightarrow> serial_out s'' = serial_out s')
          \<and> (Suc n mod 30 = 0 \<longrightarrow>
               (\<forall>w. ser e = Some w \<and> w (serial_writes s') \<longrightarrow>
                  (\<exists>r sp. serial_out s'' = serial_out s' @ [status_line (current_state s') r sp])))))
   \<and> (\<forall>(e::env) (s::machine) n w. \<not> endDisplay s \<and> ser e = Some w \<and> (\<forall>j. w j) \<longrightarrow>
        (\<exists>s'. manageMyDisplay e n s = Returned (int (n mod 30) + 1, int (n mod 10) + 1) s'
          \<and> length (serial_out s') = length (serial_out s) + n div 30))
   \<and> (\<forall>(e::env) c a (s::machine). \<exists>s'.
          manageMyDisplay_body e (c, a) s
            = Returned (if c mod STATUS_PERIOD_S = 0 then 1 else c + 1,
                        if a < 6 then a + 1 else if 11 \<le> a + 1 then 1 else a + 1) s')"
proof (intro conjI allI impI)
  show "STATUS_PERIOD_S = 30" by (simp add: STATUS_PERIOD_S_def)
next
  fix e :: env and s :: machine and n :: nat
  assume nd: "\<not> endDisplay s"
  from loop_counters[OF nd, of e n 0] obtain s' where l:
      "manageMyDisplay_loop e n (int (0 mod 30) + 1, int (0 mod 10) + 1) s
            = Returned (int ((0 + n) mod 30) + 1, int ((0 + n) mod 10) + 1) s'"
      "\<not> endDisplay s'"
    by (elim exE conjE)
  have m: "manageMyDisplay e n s = Returned (int (n mod 30) + 1, int (n mod 10) + 1) s'"
    using l(1) by (simp add: manageMyDisplay_def)
  let ?c = "int (n mod 30) + 1" and ?a = "int (n mod 10) + 1"
  from body_returns[of e ?c ?a s'] obtain s'' where b0:
      "manageMyDisplay_body e (?c, ?a) s'
          = Returned (if ?c mod 30 = 0 then 1 else ?c + 1, next_alt ?a) s''
      \<and> endDisplay s'' = endDisplay s' \<and> current_state s'' = current_state s'
      \<and> sensor_reads s'' \<le> sensor_reads s' + 3
      \<and> (?c mod 30 \<noteq> 0 \<longrightarrow> serial_out s'' = serial_out s')
      \<and> (?c mod 30 = 0 \<longrightarrow>
           (\<forall>w. ser e = Some w \<and> w (serial_writes s') \<longrightarrow>
              (\<exists>r sp. serial_out s'' = serial_out s' @ [status_line (current_state s') r sp]))
         \<and> (ser e = None \<longrightarrow> serial_out s'' = serial_out s')
         \<and> (\<forall>w. ser e = Some w \<and> \<not> w (serial_writes s') \<longrightarrow> serial_out s'' = serial_out s'))" ..
  have b1: "manageMyDisplay_body e (?c, ?a) s'
          = Returned (int (Suc n mod 30) + 1, int (Suc n mod 10) + 1) s''"
    using b0[THEN conjunct1] unfolding counter_step alt_step .
  note quiet = b0[THEN conjunct2, THEN conjunct2, THEN conjunct2, THEN conjunct2, THEN conjunct1]
  note sends = b0[THEN conjunct2, THEN conjunct2, THEN conjunct2, THEN conjunct2, THEN conjunct2,
      THEN mp, THEN conjunct1]
  have "manageMyDisplay e (Suc n) s =
          then_do (manageMyDisplay e n s)
            (\<lambda>cs' s'. if endDisplay s' then Returned cs' s' else manageMyDisplay_body e cs' s')"
    unfolding manageMyDisplay_def by (rule loop_unroll_last)
  then have m': "manageMyDisplay e (Suc n) s
              = Returned (int (Suc n mod 30) + 1, int (Suc n mod 10) + 1) s''"
    using l(2) unfolding m by (simp only: then_do.simps if_False b1)
  have fire: "(?c mod 30 = 0) = (Suc n mod 30 = 0)"
    unfolding counter_fires by (simp add: mod_Suc)
  have q: "Suc n mod 30 \<noteq> 0 \<longrightarrow> serial_out s'' = serial_out s'"
    using quiet unfolding fire .
  have t: "Suc n mod 30 = 0 \<longrightarrow>
               (\<forall>w. ser e = Some w \<and> w (serial_writes s') \<longrightarrow>
                  (\<exists>r sp. serial_out s'' = serial_out s' @ [status_line (current_state s') r sp]))"
  proof
    assume "Suc n mod 30 = 0"
    then have "?c mod 30 = 0" unfolding fire .
    then show "\<forall>w. ser e = Some w \<and> w (serial_writes s') \<longrightarrow>
                  (\<exists>r sp. serial_out s'' = serial_out s' @ [status_line (current_state s') r sp])"
      by (rule sends)
  qed
  show "\<exists>s' s''.
            manageMyDisplay e n s = Returned (int (n mod 30) + 1, int (n mod 10) + 1) s'
          \<and> manageMyDisplay e (Suc n) s
              = Returned (int (Suc n mod 30) + 1, int (Suc n mod 10) + 1) s''
          \<and> (Suc n mod 30 \<noteq> 0 \<longrightarrow> serial_out s'' = serial_out s')
          \<and> (Suc n mod 30 = 0 \<longrightarrow>
               (\<forall>w. ser e = Some w \<and> w (serial_writes s') \<longrightarrow>
                  (\<exists>r sp. serial_out s'' = serial_out s' @ [status_line (current_state s') r sp])))"
    by (intro exI[of _ s'] exI[of _ s''] conjI m m' q t)
next
  fix e :: env and s :: machine and n :: nat and w
  assume h: "\<not> endDisplay s \<and> ser e = Some w \<and> (\<forall>j. w j)"
  then have nd: "\<not> endDisplay s" and w: "ser e = Some w" "\<forall>j. w j" by simp_all
  from loop_cadence[OF w nd, of n 0] obtain s' where l:
      "manageMyDisplay_loop e n (int (0 mod 30) + 1, int (0 mod 10) + 1) s
            = Returned (int ((0 + n) mod 30) + 1, int ((0 + n) mod 10) + 1) s'"
      "length (serial_out s') + 0 div 30 = length (serial_out s) + (0 + n) div 30"
    by (elim exE conjE)
  have m: "manageMyDisplay e n s = Returned (int (n mod 30) + 1, int (n mod 10) + 1) s'"
    using l(1) by (simp add: manageMyDisplay_def)
  from l(2) have len: "length (serial_out s') = length (serial_out s) + n div 30" by simp
  show "\<exists>s'. manageMyDisplay e n s = Returned (int (n mod 30) + 1, int (n mod 10) + 1) s'
          \<and> length (serial_out s') = length (serial_out s) + n div 30"
    by (intro exI[of _ s'] conjI m len)
next
  fix e :: env and c a :: int and s :: machine
  show "\<exists>s'. manageMyDisplay_body e (c, a) s
            = Returned (if c mod STATUS_PERIOD_S = 0 then 1 else c + 1,
                        if a < 6 then a + 1 else if 11 \<le> a + 1 then 1 else a + 1) s'"
  proof -
    from body_returns[of e c a s] obtain s' where
      "manageMyDisplay_body e (c, a) s
          = Returned (if c mod 30 = 0 then 1 else c + 1, next_alt a) s'" by (elim exE conjE)
    then show ?thesis unfolding next_alt_def STATUS_PERIOD_S_def by (rule exI)
  qed
qed

theorem status_every_thirty_ticks_witness:
  "\<not> endDisplay TemperatureMachine_init \<and> ser demo_env = Some always_ok
   \<and> (\<exists>s' s''.
         manageMyDisplay demo_env 29 TemperatureMachine_init = Returned (30, 10) s'
       \<and> manageMyDisplay demo_env 30 TemperatureMachine_init = Returned (1, 1) s''
       \<and> always_ok (serial_writes s')
       \<and> length (serial_out s'') = Suc (length (serial_out s')))"
proof -
  have h: "\<not> endDisplay TemperatureMachine_init" by (simp add: TemperatureMachine_init_def)
  have p: "ser demo_env = Some always_ok" by (simp add: demo_env_def)
  from status_every_thirty_ticks[THEN conjunct2, THEN conjunct1, rule_format,
        where e = demo_env and s = TemperatureMachine_init and n = 29, OF h]
  obtain s' s'' where r:
      "manageMyDisplay demo_env 29 TemperatureMachine_init
          = Returned (int (29 mod 30) + 1, int (29 mod 10) + 1) s'"
      "manageMyDisplay demo_env (Suc 29) TemperatureMachine_init
          = Returned (int (Suc 29 mod 30) + 1, int (Suc 29 mod 10) + 1) s''"
      "Suc 29 mod 30 = 0 \<longrightarrow>
               (\<forall>w. ser demo_env = Some w \<and> w (serial_writes s') \<longrightarrow>
                  (\<exists>r sp. serial_out s'' = serial_out s' @ [status_line (current_state s') r sp]))"
    by (elim exE conjE)
  have a: "manageMyDisplay demo_env 29 TemperatureMachine_init = Returned (30, 10) s'"
    using r(1) by simp
  have b: "manageMyDisplay demo_env 30 TemperatureMachine_init = Returned (1, 1) s''"
    using r(2) by simp
  have ok: "always_ok (serial_writes s')" by (simp add: always_ok_def)
  have "Suc 29 mod 30 = (0::nat)" by simp
  with r(3) p ok have "\<exists>r sp. serial_out s'' = serial_out s' @ [status_line (current_state s') r sp]"
    by blast
  then have d: "length (serial_out s'') = Suc (length (serial_out s'))" by auto
  show ?thesis using h p a b ok d by simp
qed


section \<open>Temperature reads within one iteration\<close>

lemma status_tick_counters:
  assumes "Suc n mod 30 = 0"
  shows "n mod 30 = 29" and "n mod 10 = 9"
proof -
  from assms obtain q where q: "Suc n = 30 * q" by (auto simp: mod_eq_0_iff_dvd elim: dvdE)
  then have "0 < q" by (cases q) simp_all
  then obtain p where p: "q = Suc p" by (cases q) simp_all
  from q p have n: "n = 29 + 30 * p" by simp
  show "n mod 30 = 29" unfolding n by simp
  have "n = 9 + 10 * (2 + 3 * p)" unfolding n by simp
  then have "n mod 10 = 9 mod 10" by (simp only: mod_mult_self2)
  then show "n mod 10 = 9" by simp
qed

lemma body_quiet_reads:
  assumes "c mod STATUS_PERIOD_S \<noteq> 0"
  shows "\<exists>cs' s'. manageMyDisplay_body e (c, a) s = Returned cs' s'
           \<and> sensor_reads s' \<le> sensor_reads s + 1"
proof -
  let ?s1 = "refreshed e s"
  from display_step_returns[of e a ?s1] obtain line s2 where
      d: "display_step e a ?s1 = Returned (line, next_alt a) s2"
         "sensor_reads s2 \<le> Suc (sensor_reads ?s1)"
    by (elim exE conjE)
  have b: "manageMyDisplay_body e (c, a) s = Returned (c + 1, next_alt a) (updateScreen line s2)"
    using assms d(1) by (simp add: manageMyDisplay_body_def refresh_eq)
  have "sensor_reads (updateScreen line s2) \<le> sensor_reads s + 1"
    using d(2) by (simp add: updateScreen_def refreshed_frame)
  then show ?thesis using b by (intro exI conjI)
qed

lemma display_step_label:
  assumes a: "10 \<le> a" and u: "updateLights e s = Returned () u"
  shows "display_step e a s = Returned (ljust16 (upper (state_id (current_state s))), 1) u"
  using a by (simp add: display_step_def Let_def u)


lemma body_status_label:
  assumes c: "c mod STATUS_PERIOD_S = 0" and a: "10 \<le> a"
    and w: "ser e = Some w" "w (serial_writes s)"
  shows "\<exists>r1 s1 u r2 s2 r3 s3.
       getSmoothedFahrenheit e (refreshed e (refreshed e s)) = Returned r1 s1
     \<and> updateLights e (refreshed e s) = Returned () u
     \<and> ma u = ma s1 \<and> sensor_reads u = sensor_reads s1
     \<and> getSmoothedFahrenheit e (updateScreen (upper (state_id (current_state s))) u)
         = Returned r2 s2
     \<and> getSmoothedFahrenheit e
         (s2\<lparr>serial_writes := Suc (serial_writes s2),
             serial_out := serial_out s2 @ [status_line (current_state s) r2 (setPoint u)]\<rparr>)
         = Returned r3 s3
     \<and> manageMyDisplay_body e (c, a) s =
         Returned (1, 1)
           (log_reading (case r3 of None \<Rightarrow> 0 | Some t \<Rightarrow> t) (setPoint u)
              (state_id (current_state s)) s3)
     \<and> lcd s3 = ljust16 (upper (state_id (current_state s)))
     \<and> serial_out s3 = serial_out s @ [status_line (current_state s) r2 (setPoint u)]
     \<and> db_readings s3 = db_readings s
     \<and> (thSensor e \<noteq> None \<longrightarrow> sensor_reads s3 = sensor_reads s + 3)"
proof -
  let ?s0 = "refreshed e s"
  let ?s0' = "refreshed e ?s0"
  let ?label = "upper (state_id (current_state s))"
  from getSmoothed_returns[of e ?s0'] obtain r1 s1 where
    g1: "getSmoothedFahrenheit e ?s0' = Returned r1 s1" by (elim exE conjE)
  have f1: "keeps ?s0' s1" using getSmoothed_returns[of e ?s0'] unfolding g1 by simp
  note ul = updateLights_eq[OF g1]
  define u where "u = s1\<lparr>redLight :=
                 (case current_state ?s0 of
                    Heat \<Rightarrow> (case r1 of None \<Rightarrow> Solid
                             | Some t \<Rightarrow> if t < real_of_int (setPoint s1) - HYSTERESIS_F
                                         then Pulsing else Solid)
                  | _ \<Rightarrow> LedOff),
               blueLight :=
                 (case current_state ?s0 of
                    Cool \<Rightarrow> (case r1 of None \<Rightarrow> Solid
                             | Some t \<Rightarrow> if t > real_of_int (setPoint s1) + HYSTERESIS_F
                                         then Pulsing else Solid)
                  | _ \<Rightarrow> LedOff)\<rparr>"
  have upd: "updateLights e ?s0 = Returned () u" unfolding u_def by (rule ul)
  have ku: "keeps s u" "ma u = ma s1" "sensor_reads u = sensor_reads s1"
    using f1 refreshed_keeps[of s e] refreshed_keeps[of ?s0 e]
    by (simp_all add: u_def keeps_def)
  have cs0: "current_state ?s0 = current_state s" using refreshed_keeps[of s e] by (simp add: keeps_def)
  have d: "display_step e a ?s0 = Returned (ljust16 ?label, 1) u"
    using display_step_label[OF a upd] unfolding cs0 .
  let ?s3 = "updateScreen ?label u"
  have scr: "updateScreen (ljust16 ?label) u = ?s3"
    by (simp add: updateScreen_def ljust16_idem)
  have body: "manageMyDisplay_body e (c, a) s = Returned (1, 1) (status_step e ?s3)"
    using c d by (simp add: manageMyDisplay_body_def refresh_eq scr)
  have k3: "current_state ?s3 = current_state s" "setPoint ?s3 = setPoint u"
      "serial_out ?s3 = serial_out s" "serial_writes ?s3 = serial_writes s"
      "db_readings ?s3 = db_readings s" "lcd ?s3 = ljust16 ?label"
      "sensor_reads ?s3 = sensor_reads u"
    using ku(1) by (simp_all add: updateScreen_def keeps_def)
  from getSmoothed_returns[of e ?s3] obtain r2 s2 where
    g2: "getSmoothedFahrenheit e ?s3 = Returned r2 s2" by (elim exE conjE)
  have f2: "keeps ?s3 s2" "lcd s2 = lcd ?s3"
    using getSmoothed_returns[of e ?s3] unfolding g2 by simp_all
  have w3: "w (serial_writes ?s3)" using w(2) k3(4) by simp
  let ?s4 = "s2\<lparr>serial_writes := Suc (serial_writes s2),
             serial_out := serial_out s2 @ [status_line (current_state ?s3) r2 (setPoint ?s3)]\<rparr>"
  from status_step_sent[OF w(1) w3 g2] obtain r3 s3 where g3:
      "getSmoothedFahrenheit e ?s4 = Returned r3 s3"
      "status_step e ?s3 =
        log_reading (case r3 of None \<Rightarrow> 0 | Some t \<Rightarrow> t) (setPoint ?s3)
          (state_id (current_state ?s3)) s3"
    by (elim exE conjE)
  have f3: "keeps ?s4 s3" "lcd s3 = lcd ?s4"
    using getSmoothed_returns[of e ?s4] unfolding g3(1) by simp_all
  have lcd3: "lcd s3 = ljust16 ?label" using f3(2) f2(2) k3(6) by simp
  have out3: "serial_out s3 = serial_out s @ [status_line (current_state s) r2 (setPoint u)]"
    using f3(1) f2(1) k3 by (simp add: keeps_def)
  have db3: "db_readings s3 = db_readings s" using f3(1) f2(1) k3 by (simp add: keeps_def)
  have reads: "thSensor e \<noteq> None \<longrightarrow> sensor_reads s3 = sensor_reads s + 3"
  proof
    assume p: "thSensor e \<noteq> None"
    have "sensor_reads s1 = Suc (sensor_reads ?s0')" by (rule sensor_reads_present[OF p g1])
    moreover have "sensor_reads s2 = Suc (sensor_reads ?s3)" by (rule sensor_reads_present[OF p g2])
    moreover have "sensor_reads s3 = Suc (sensor_reads ?s4)" by (rule sensor_reads_present[OF p g3(1)])
    ultimately show "sensor_reads s3 = sensor_reads s + 3"
      using ku(3) k3(7) by (simp add: refreshed_frame)
  qed
  have g2': "getSmoothedFahrenheit e (updateScreen ?label u) = Returned r2 s2" by (rule g2)
  have g3': "getSmoothedFahrenheit e
         (s2\<lparr>serial_writes := Suc (serial_writes s2),
             serial_out := serial_out s2 @ [status_line (current_state s) r2 (setPoint u)]\<rparr>)
         = Returned r3 s3"
    using g3(1) unfolding k3(1,2) .
  have body': "manageMyDisplay_body e (c, a) s =
         Returned (1, 1)
           (log_reading (case r3 of None \<Rightarrow> 0 | Some t \<Rightarrow> t) (setPoint u)
              (state_id (current_state s)) s3)"
    using body g3(2) unfolding k3(1,2) by simp
  show ?thesis
    by (intro exI[of _ r1] exI[of _ s1] exI[of _ u] exI[of _ r2] exI[of _ s2] exI[of _ r3]
          exI[of _ s3] conjI g1 upd ku(2) ku(3) g2' g3' body' lcd3 out3 db3 reads)
qed

lemma run_29_ticks:
  "manageMyDisplay demo_env 29 TemperatureMachine_init = Returned (30, 10) after_29_ticks"
  by code_simp

lemma tick_30:
  "manageMyDisplay_body demo_env (30, 10) after_29_ticks = Returned (1, 1) after_30_ticks"
  by code_simp

lemma run_30_ticks:
  "manageMyDisplay demo_env 30 TemperatureMachine_init = Returned (1, 1) after_30_ticks"
proof -
  have "manageMyDisplay demo_env (Suc 29) TemperatureMachine_init =
          then_do (manageMyDisplay demo_env 29 TemperatureMachine_init)
            (\<lambda>cs' s'. if endDisplay s' then Returned cs' s'
                       else manageMyDisplay_body demo_env cs' s')"
    unfolding manageMyDisplay_def by (rule loop_unroll_last)
  moreover have "\<not> endDisplay after_29_ticks" by (simp add: after_29_ticks_def)
  ultimately have "manageMyDisplay demo_env (Suc 29) TemperatureMachine_init
      = Returned (1, 1) after_30_ticks"
    by (simp only: run_29_ticks then_do.simps if_False tick_30)
  then show ?thesis by simp
qed

text \<open>
  The loop from start-up with the demonstration collaborators: the 30th iteration, the
  first status tick, samples the sensor three times (reads 17 to 20), for the actuation
  refresh, the status line and the logged reading; the display shows the mode label,
  the status line carries 275 and the log 293.
\<close>

theorem one_read_per_tick_counterexample:
  "manageMyDisplay demo_env 29 TemperatureMachine_init = Returned (30, 10) after_29_ticks
   \<and> manageMyDisplay demo_env 30 TemperatureMachine_init = Returned (1, 1) after_30_ticks
   \<and> sensor_reads after_29_ticks = 17
   \<and> sensor_reads after_30_ticks = 20
   \<and> \<not> sensor_reads after_30_ticks \<le> sensor_reads after_29_ticks + 1
   \<and> length (buf (ma after_29_ticks)) = 10
   \<and> drop 7 (buf (ma after_30_ticks)) = [338, 356, 374]
   \<and> lcd after_30_ticks = ''OFF             ''
   \<and> serial_out after_30_ticks = [''off,275,70'' @ [CHR 0x0A]]
   \<and> db_readings after_30_ticks = [(293, 70, ''off'')]"
  using run_29_ticks run_30_ticks by (simp add: after_29_ticks_def after_30_ticks_def)

text \<open>
  C8, as the code has it. Within one iteration of the loop every use of the temperature
  takes a smoothed read of its own (a sensor sample pushed into the filter): at most one
  in an iteration that is not a status tick, at most three in any. A status tick of the
  running loop (every 30th iteration) always comes with the alternation counter at 10,
  the label phase of the display: the display line is the mode label, the actuation
  refresh takes a first read, the status line is formatted from a second read made after
  the display was written, and the logged reading from a third; with a sensor present
  the iteration samples it exactly three times.
\<close>

theorem temperature_reads_per_tick:
  "(\<forall>(e::env) c a (s::machine). \<exists>cs' s'.
        manageMyDisplay_body e (c, a) s = Returned cs' s'
      \<and> sensor_reads s' \<le> sensor_reads s + 3)
   \<and> (\<forall>(e::env) c a (s::machine). c mod STATUS_PERIOD_S \<noteq> 0 \<longrightarrow>
        (\<exists>cs' s'. manageMyDisplay_body e (c, a) s = Returned cs' s'
           \<and> sensor_reads s' \<le> sensor_reads s + 1))
   \<and> (\<forall>(e::env) (s::machine) n w.
        \<not> endDisplay s \<and> Suc n mod 30 = 0 \<and> ser e = Some w \<and> (\<forall>j. w j) \<longrightarrow>
        (\<exists>s' s'' s0 s0' r1 s1 u r2 s2 r3 s3.
            manageMyDisplay e n s = Returned (30, 10) s'
          \<and> manageMyDisplay e (Suc n) s = Returned (1, 1) s''
          \<and> refreshEffectiveSetPoint e s' = Returned () s0
          \<and> refreshEffectiveSetPoint e s0 = Returned () s0'
          \<and> getSmoothedFahrenheit e s0' = Returned r1 s1
          \<and> updateLights e s0 = Returned () u
          \<and> ma u = ma s1 \<and> sensor_reads u = sensor_reads s1
          \<and> getSmoothedFahrenheit e (updateScreen (upper (state_id (current_state s'))) u)
              = Returned r2 s2
          \<and> getSmoothedFahrenheit e
               (s2\<lparr>serial_writes := Suc (serial_writes s2),
                   serial_out := serial_out s2 @ [status_line (current_state s') r2 (setPoint u)]\<rparr>)
               = Returned r3 s3
          \<and> lcd s'' = ljust16 (upper (state_id (current_state s')))
          \<and> serial_out s'' = serial_out s' @ [status_line (current_state s') r2 (setPoint u)]
          \<and> db_readings s'' = db_readings s' @
                [(case r3 of None \<Rightarrow> 0 | Some t \<Rightarrow> t, setPoint u, state_id (current_state s'))]
          \<and> (thSensor e \<noteq> None \<longrightarrow> sensor_reads s'' = sensor_reads s' + 3)))"
proof (intro conjI allI impI)
  fix e :: env and c a :: int and s :: machine
  from body_returns[of e c a s] obtain s' where
      "manageMyDisplay_body e (c, a) s
          = Returned (if c mod 30 = 0 then 1 else c + 1, next_alt a) s'"
      "sensor_reads s' \<le> sensor_reads s + 3"
    by (elim exE conjE)
  then show "\<exists>cs' s'. manageMyDisplay_body e (c, a) s = Returned cs' s'
      \<and> sensor_reads s' \<le> sensor_reads s + 3"
    by (intro exI conjI)
next
  fix e :: env and c a :: int and s :: machine
  assume "c mod STATUS_PERIOD_S \<noteq> 0"
  then show "\<exists>cs' s'. manageMyDisplay_body e (c, a) s = Returned cs' s'
           \<and> sensor_reads s' \<le> sensor_reads s + 1"
    by (rule body_quiet_reads)
next
  fix e :: env and s :: machine and n :: nat and w
  assume h: "\<not> endDisplay s \<and> Suc n mod 30 = 0 \<and> ser e = Some w \<and> (\<forall>j. w j)"
  then have nd: "\<not> endDisplay s" and tick: "Suc n mod 30 = 0" and w: "ser e = Some w"
    and ok: "\<forall>j. w j" by simp_all
  note cnt = status_tick_counters[OF tick]
  from loop_counters[OF nd, of e n 0] obtain s' where l:
      "manageMyDisplay_loop e n (int (0 mod 30) + 1, int (0 mod 10) + 1) s
            = Returned (int ((0 + n) mod 30) + 1, int ((0 + n) mod 10) + 1) s'"
      "\<not> endDisplay s'"
    by (elim exE conjE)
  have m: "manageMyDisplay e n s = Returned (30, 10) s'"
    using l(1) by (simp add: manageMyDisplay_def cnt)
  have c30: "(30::int) mod STATUS_PERIOD_S = 0" by (simp add: STATUS_PERIOD_S_def)
  have ws: "w (serial_writes s')" using ok by simp
  have ten: "(10::int) \<le> 10" by simp
  from body_status_label[OF c30 ten w ws] obtain r1 s1 u r2 s2 r3 s3 where b:
      "getSmoothedFahrenheit e (refreshed e (refreshed e s')) = Returned r1 s1"
      "updateLights e (refreshed e s') = Returned () u"
      "ma u = ma s1" "sensor_reads u = sensor_reads s1"
      "getSmoothedFahrenheit e (updateScreen (upper (state_id (current_state s'))) u)
         = Returned r2 s2"
      "getSmoothedFahrenheit e
         (s2\<lparr>serial_writes := Suc (serial_writes s2),
             serial_out := serial_out s2 @ [status_line (current_state s') r2 (setPoint u)]\<rparr>)
         = Returned r3 s3"
      "manageMyDisplay_body e (30, 10) s' =
         Returned (1, 1)
           (log_reading (case r3 of None \<Rightarrow> 0 | Some t \<Rightarrow> t) (setPoint u)
              (state_id (current_state s')) s3)"
      "lcd s3 = ljust16 (upper (state_id (current_state s')))"
      "serial_out s3 = serial_out s' @ [status_line (current_state s') r2 (setPoint u)]"
      "db_readings s3 = db_readings s'"
      "thSensor e \<noteq> None \<longrightarrow> sensor_reads s3 = sensor_reads s' + 3"
    by (elim exE conjE)
  let ?s'' = "log_reading (case r3 of None \<Rightarrow> 0 | Some t \<Rightarrow> t) (setPoint u)
              (state_id (current_state s')) s3"
  have "manageMyDisplay e (Suc n) s =
          then_do (manageMyDisplay e n s)
            (\<lambda>cs' s'. if endDisplay s' then Returned cs' s' else manageMyDisplay_body e cs' s')"
    unfolding manageMyDisplay_def by (rule loop_unroll_last)
  then have m': "manageMyDisplay e (Suc n) s = Returned (1, 1) ?s''"
    using l(2) unfolding m by (simp only: then_do.simps if_False b(7))
  have fin: "lcd ?s'' = ljust16 (upper (state_id (current_state s')))"
      "serial_out ?s'' = serial_out s' @ [status_line (current_state s') r2 (setPoint u)]"
      "db_readings ?s'' = db_readings s' @
          [(case r3 of None \<Rightarrow> 0 | Some t \<Rightarrow> t, setPoint u, state_id (current_state s'))]"
      "thSensor e \<noteq> None \<longrightarrow> sensor_reads ?s'' = sensor_reads s' + 3"
    using b(8-11) by (simp_all add: log_reading_def)
  show "\<exists>s' s'' s0 s0' r1 s1 u r2 s2 r3 s3.
            manageMyDisplay e n s = Returned (30, 10) s'
          \<and> manageMyDisplay e (Suc n) s = Returned (1, 1) s''
          \<and> refreshEffectiveSetPoint e s' = Returned () s0
          \<and> refreshEffectiveSetPoint e s0 = Returned () s0'
          \<and> getSmoothedFahrenheit e s0' = Returned r1 s1
          \<and> updateLights e s0 = Returned () u
          \<and> ma u = ma s1 \<and> sensor_reads u = sensor_reads s1
          \<and> getSmoothedFahrenheit e (updateScreen (upper (state_id (current_state s'))) u)
              = Returned r2 s2
          \<and> getSmoothedFahrenheit e
               (s2\<lparr>serial_writes := Suc (serial_writes s2),
                   serial_out := serial_out s2 @ [status_line (current_state s') r2 (setPoint u)]\<rparr>)
               = Returned r3 s3
          \<and> lcd s'' = ljust16 (upper (state_id (current_state s')))
          \<and> serial_out s'' = serial_out s' @ [status_line (current_state s') r2 (setPoint u)]
          \<and> db_readings s'' = db_readings s' @
                [(case r3 of None \<Rightarrow> 0 | Some t \<Rightarrow> t, setPoint u, state_id (current_state s'))]
          \<and> (thSensor e \<noteq> None \<longrightarrow> sensor_reads s'' = sensor_reads s' + 3)"
    by (rule exI[of _ s'], rule exI[of _ ?s''], rule exI[of _ "refreshed e s'"],
        rule exI[of _ "refreshed e (refreshed e s')"], rule exI[of _ r1], rule exI[of _ s1],
        rule exI[of _ u], rule exI[of _ r2], rule exI[of _ s2], rule exI[of _ r3],
        rule exI[of _ s3], intro conjI m m' refresh_eq b(1-6) fin)
qed

theorem temperature_reads_per_tick_witness:
  "\<not> endDisplay TemperatureMachine_init \<and> Suc 29 mod 30 = (0::nat)
   \<and> ser demo_env = Some always_ok \<and> always_ok 0
   \<and> (\<exists>s' s''.
         manageMyDisplay demo_env 29 TemperatureMachine_init = Returned (30, 10) s'
       \<and> manageMyDisplay demo_env 30 TemperatureMachine_init = Returned (1, 1) s''
       \<and> sensor_reads s'' = sensor_reads s' + 3)"
proof -
  have h: "\<not> endDisplay TemperatureMachine_init \<and> Suc 29 mod 30 = 0
      \<and> ser demo_env = Some always_ok \<and> (\<forall>j. always_ok j)"
    by (simp add: TemperatureMachine_init_def demo_env_def always_ok_def)
  from temperature_reads_per_tick[THEN conjunct2, THEN conjunct2, rule_format,
      where e = demo_env and s = TemperatureMachine_init and n = 29 and w = always_ok, OF h]
  obtain s' s'' where r:
      "manageMyDisplay demo_env 29 TemperatureMachine_init = Returned (30, 10) s'"
      "manageMyDisplay demo_env (Suc 29) TemperatureMachine_init = Returned (1, 1) s''"
      "thSensor demo_env \<noteq> None \<longrightarrow> sensor_reads s'' = sensor_reads s' + 3"
    by (elim exE conjE)
  have "sensor_reads s'' = sensor_reads s' + 3" using r(3) by (simp add: demo_env_def)
  moreover have "manageMyDisplay demo_env 30 TemperatureMachine_init = Returned (1, 1) s''"
    using r(2) by simp
  ultimately show ?thesis using h r(1) by (auto simp: always_ok_def)
qed

end
